theory Spec2Isabelle
  imports
    Main
    "HOL-Library.Word"
    "HOL-Library.AList"
    "HOL-Library.Product_Lexorder"
    "HOL-Library.List_Lexorder"
begin

chapter \<open>KhmerCoders bot: rate limiting, input screening, message tracking and leaderboards\<close>

text \<open>
  A shallow embedding of the TypeScript sources
  \<^verbatim>\<open>src/utils/security-helpers.ts\<close>, \<^verbatim>\<open>src/utils/db-helpers.ts\<close>,
  \<^verbatim>\<open>src/utils/stats-helpers.ts\<close> and of the leaderboard route of \<^verbatim>\<open>src/index.ts\<close>.

  Conventions of the embedding.
  \<^item> A JavaScript string is the list of its UTF-16 code units, so \<open>length\<close> is the
    JavaScript \<^verbatim>\<open>.length\<close>.
  \<^item> \<^verbatim>\<open>Date.now()\<close> and \<^verbatim>\<open>new Date()\<close> are read from the environment; every
    function that reads the clock takes the value read as an argument.
  \<^item> A JavaScript number that the program only tests with \<^verbatim>\<open>Number.isInteger\<close> and
    compares is an \<open>int option\<close>: \<open>Some n\<close> is the integral double \<open>n\<close> and \<open>None\<close> is
    \<^verbatim>\<open>NaN\<close>, the one non-integer that \<^verbatim>\<open>parseInt\<close> and \<^verbatim>\<open>Math.min\<close> produce here.
    Where the program adds such numbers the rounding of doubles is written out.
  \<^item> A \<^verbatim>\<open>throw\<close> is the \<open>Inl\<close> of a sum type; a function that writes to the database
    returns the new database next to its result.
  \<^item> The D1 database is two tables held in memory. Failures of the storage service
    itself (the \<^verbatim>\<open>catch\<close> branches of \<^verbatim>\<open>executeQueryAll\<close> and its siblings) are outside
    the model: every prepared statement runs.
\<close>

section \<open>Definitions\<close>

subsection \<open>JavaScript strings\<close>

type_synonym code_unit = "16 word"
type_synonym jstring = "code_unit list"

text \<open>The code units of an ASCII literal.\<close>

definition jstr :: "string \<Rightarrow> jstring" where
  "jstr s = map (\<lambda>c. of_nat (of_char c)) s"

text \<open>
  \<^verbatim>\<open>String.prototype.toLowerCase\<close> on the Basic Latin and Latin-1 blocks. Code units
  from U+0100 on are left as they are. The program only compares the result with
  \<^verbatim>\<open>telegram\<close> and \<^verbatim>\<open>discord\<close>, and a string with such a code unit lowercases to
  neither of them in JavaScript as well.
\<close>

definition toLowerCase_unit :: "code_unit \<Rightarrow> code_unit" where
  "toLowerCase_unit c =
     (if (0x41 \<le> c \<and> c \<le> 0x5A) \<or> (0xC0 \<le> c \<and> c \<le> 0xDE \<and> c \<noteq> 0xD7)
      then c + 0x20 else c)"

definition toLowerCase :: "jstring \<Rightarrow> jstring" where
  "toLowerCase s = map toLowerCase_unit s"

text \<open>The code units that \<^verbatim>\<open>trim\<close> and \<^verbatim>\<open>parseInt\<close> strip: WhiteSpace and LineTerminator.\<close>

definition is_whitespace :: "code_unit \<Rightarrow> bool" where
  "is_whitespace c \<longleftrightarrow>
     (0x09 \<le> c \<and> c \<le> 0x0D) \<or> c = 0x20 \<or> c = 0xA0 \<or> c = 0x1680 \<or>
     (0x2000 \<le> c \<and> c \<le> 0x200A) \<or> c = 0x2028 \<or> c = 0x2029 \<or> c = 0x202F \<or>
     c = 0x205F \<or> c = 0x3000 \<or> c = 0xFEFF"

definition trim :: "jstring \<Rightarrow> jstring" where
  "trim s = rev (dropWhile is_whitespace (rev (dropWhile is_whitespace s)))"

text \<open>The code units the regular-expression atom \<^verbatim>\<open>.\<close> does not match.\<close>

definition is_line_terminator :: "code_unit \<Rightarrow> bool" where
  "is_line_terminator c \<longleftrightarrow> c = 0x0A \<or> c = 0x0D \<or> c = 0x2028 \<or> c = 0x2029"

text \<open>A JavaScript number that is an integer, or \<open>None\<close> for \<^verbatim>\<open>NaN\<close>.\<close>

type_synonym number = "int option"

subsection \<open>The rate limiter (\<^verbatim>\<open>class RateLimiter\<close>)\<close>

record RateLimiter =
  requests :: "jstring \<rightharpoonup> int list"
  maxRequests :: int
  windowMs :: int

definition new_RateLimiter :: "int \<Rightarrow> int \<Rightarrow> RateLimiter" where
  "new_RateLimiter maxReq window =
     \<lparr>requests = Map.empty, maxRequests = maxReq, windowMs = window\<rparr>"

text \<open>
  The class is not exported. Its only instances are the three limiters of the module: for
  commands, for summaries and for API requests.
\<close>

definition commandRateLimiter :: RateLimiter where
  "commandRateLimiter = new_RateLimiter 5 60000"

definition summaryRateLimiter :: RateLimiter where
  "summaryRateLimiter = new_RateLimiter 2 300000"

definition apiRateLimiter :: RateLimiter where
  "apiRateLimiter = new_RateLimiter 60 60000"

text \<open>\<^verbatim>\<open>this.requests.get(key) || []\<close>\<close>

definition userRequests :: "RateLimiter \<Rightarrow> jstring \<Rightarrow> int list" where
  "userRequests rl key = (case requests rl key of None \<Rightarrow> [] | Some ts \<Rightarrow> ts)"

text \<open>\<^verbatim>\<open>filter((timestamp) => now - timestamp < this.windowMs)\<close>\<close>

definition validRequests :: "RateLimiter \<Rightarrow> int \<Rightarrow> int list \<Rightarrow> int list" where
  "validRequests rl now ts = filter (\<lambda>timestamp. now - timestamp < windowMs rl) ts"

definition isRateLimited :: "RateLimiter \<Rightarrow> int \<Rightarrow> jstring \<Rightarrow> bool \<times> RateLimiter" where
  "isRateLimited rl now key =
     (let valid = validRequests rl now (userRequests rl key)
      in if maxRequests rl \<le> int (length valid) then (True, rl)
         else (False, rl\<lparr>requests := (requests rl)(key \<mapsto> valid @ [now])\<rparr>))"

definition getRemainingRequests :: "RateLimiter \<Rightarrow> int \<Rightarrow> jstring \<Rightarrow> int" where
  "getRemainingRequests rl now key =
     max 0 (maxRequests rl - int (length (validRequests rl now (userRequests rl key))))"

text \<open>
  \<^verbatim>\<open>cleanup\<close> visits every entry of the map once and either deletes it or replaces its
  list, so it is the same update at every key.
\<close>

definition cleanup :: "RateLimiter \<Rightarrow> int \<Rightarrow> RateLimiter" where
  "cleanup rl now =
     rl\<lparr>requests := (\<lambda>key. case requests rl key of
                               None \<Rightarrow> None
                             | Some ts \<Rightarrow>
                                 (let valid = validRequests rl now ts
                                  in if length valid = 0 then None else Some valid))\<rparr>"

text \<open>
  A history of a limiter: the calls made on it, each with the clock value it read.
\<close>

datatype call = IsRateLimited jstring | GetRemainingRequests jstring | Cleanup

datatype outcome = Limited bool | Remaining int | Cleaned

fun perform :: "RateLimiter \<Rightarrow> int \<times> call \<Rightarrow> outcome \<times> RateLimiter" where
  "perform rl (now, IsRateLimited key) =
     (case isRateLimited rl now key of (b, rl') \<Rightarrow> (Limited b, rl'))"
| "perform rl (now, GetRemainingRequests key) =
     (Remaining (getRemainingRequests rl now key), rl)"
| "perform rl (now, Cleanup) = (Cleaned, cleanup rl now)"

fun run :: "RateLimiter \<Rightarrow> (int \<times> call) list \<Rightarrow> outcome list \<times> RateLimiter" where
  "run rl [] = ([], rl)"
| "run rl (c # cs) =
     (case perform rl c of (out, rl') \<Rightarrow>
        (case run rl' cs of (outs, rl'') \<Rightarrow> (out # outs, rl'')))"

text \<open>The clock values of the calls \<^verbatim>\<open>isRateLimited(key)\<close> of a history that were let through.\<close>

definition accepted :: "jstring \<Rightarrow> (int \<times> call) list \<Rightarrow> outcome list \<Rightarrow> int list" where
  "accepted key cs outs =
     map (\<lambda>((now, c), out). now)
       (filter (\<lambda>((now, c), out). c = IsRateLimited key \<and> out = Limited False) (zip cs outs))"

definition validCount :: "RateLimiter \<Rightarrow> int \<Rightarrow> jstring \<Rightarrow> nat" where
  "validCount rl now key = length (validRequests rl now (userRequests rl key))"

subsection \<open>The database and \<^verbatim>\<open>trackMessage\<close>\<close>

datatype error =
  InvalidPlatform | UserIdRequired | DisplayNameRequired | InvalidMessageLength | InvalidLimit

text \<open>
  Modelled from the spec: the schema, which is not among the sources. The table
  \<^verbatim>\<open>users(platform, user_id, display_name)\<close> is unique on \<^verbatim>\<open>(platform, user_id)\<close> and
  \<^verbatim>\<open>chat_counter(chat_date, platform, user_id, message_count, message_length)\<close> is unique on
  \<^verbatim>\<open>(chat_date, platform, user_id)\<close>. A table is the list of its rows, each row a unique
  key paired with the other columns. \<open>prepared\<close> lists the statements prepared on the
  handle so far, by the operation names the source gives them.
\<close>

type_synonym user_key = "jstring \<times> jstring"
type_synonym counter_key = "jstring \<times> jstring \<times> jstring"

record D1Database =
  users :: "(user_key \<times> jstring) list"
  chat_counter :: "(counter_key \<times> int \<times> int) list"
  prepared :: "string list"

definition wf_db :: "D1Database \<Rightarrow> bool" where
  "wf_db db \<longleftrightarrow> distinct (map fst (users db)) \<and> distinct (map fst (chat_counter db))"

definition platforms :: "jstring list" where
  "platforms = [jstr ''telegram'', jstr ''discord'']"

definition validateTrackingParams ::
  "jstring \<Rightarrow> jstring \<Rightarrow> jstring \<Rightarrow> number \<Rightarrow> error + unit" where
  "validateTrackingParams platform userId displayName messageLength =
     (if platform = [] \<or> toLowerCase platform \<notin> set platforms then Inl InvalidPlatform
      else if userId = [] \<or> trim userId = [] then Inl UserIdRequired
      else if displayName = [] \<or> trim displayName = [] then Inl DisplayNameRequired
      else (case messageLength of
              None \<Rightarrow> Inl InvalidMessageLength
            | Some n \<Rightarrow> if n < 0 then Inl InvalidMessageLength else Inr ()))"

text \<open>\<^verbatim>\<open>INSERT OR IGNORE INTO users (platform, user_id, display_name) VALUES (?, ?, ?)\<close>\<close>

definition insert_or_ignore_user ::
  "user_key \<Rightarrow> jstring \<Rightarrow> (user_key \<times> jstring) list \<Rightarrow> (user_key \<times> jstring) list" where
  "insert_or_ignore_user key name rows =
     (case map_of rows key of None \<Rightarrow> rows @ [(key, name)] | Some existing \<Rightarrow> rows)"

text \<open>
  D1 binds a JavaScript number as a double, and \<^verbatim>\<open>validateTrackingParams\<close> lets every
  non-negative integral double through, so \<^verbatim>\<open>message_length + ?\<close> is an addition of
  doubles: exact while the sum stays below \<open>2^53\<close>, rounded to the nearest double
  (ties to even) from there on. \<open>round_double\<close> is that rounding on integers:
  \<open>double_exponent\<close> counts the low bits that do not fit into the 53 bits of the
  significand. Sums from \<open>2^1024\<close> on, which JavaScript rounds to \<^verbatim>\<open>Infinity\<close>, are outside
  the model.
\<close>

definition MAX_SAFE_INTEGER :: int where
  "MAX_SAFE_INTEGER = 9007199254740991"

function double_exponent :: "nat \<Rightarrow> nat" where
  "double_exponent m =
     (if m < 9007199254740992 then 0 else Suc (double_exponent (m div 2)))"
  by pat_completeness auto
termination
  by (relation "measure id") auto

declare double_exponent.simps [simp del]

definition round_double :: "int \<Rightarrow> int" where
  "round_double n =
     (let m = nat \<bar>n\<bar>;
          e = double_exponent m;
          q = m div 2 ^ e;
          r = m mod 2 ^ e;
          q' = (if 2 ^ e < 2 * r \<or> (2 * r = 2 ^ e \<and> odd q) then q + 1 else q)
      in sgn n * int (q' * 2 ^ e))"

text \<open>
  \<^verbatim>\<open>INSERT INTO chat_counter (...) VALUES (?, ?, ?, 1, ?) ON CONFLICT (chat_date, platform, user_id)
  DO UPDATE SET message_count = message_count + 1, message_length = message_length + ?\<close>.
  The count grows by the integer literal 1 and is exact.
\<close>

definition upsert_counter ::
  "counter_key \<Rightarrow> int \<Rightarrow> (counter_key \<times> int \<times> int) list \<Rightarrow> (counter_key \<times> int \<times> int) list" where
  "upsert_counter key len rows =
     (case map_of rows key of
        None \<Rightarrow> rows @ [(key, (1, len))]
      | Some (message_count, message_length) \<Rightarrow>
          AList.update key (message_count + 1, round_double (message_length + len)) rows)"

text \<open>\<^verbatim>\<open>db.prepare(...)\<close>, recorded under the name of the operation.\<close>

definition prepare :: "string \<Rightarrow> D1Database \<Rightarrow> D1Database" where
  "prepare operation db = db\<lparr>prepared := prepared db @ [operation]\<rparr>"

text \<open>
  \<open>today\<close> is \<^verbatim>\<open>new Date().toISOString().split("T")[0]\<close>. After the validation has
  passed, \<open>messageLength\<close> is an integer; the branch for \<open>None\<close> is never taken.
\<close>

definition trackMessage ::
  "D1Database \<Rightarrow> jstring \<Rightarrow> jstring \<Rightarrow> jstring \<Rightarrow> jstring \<Rightarrow> number
     \<Rightarrow> (error + unit) \<times> D1Database" where
  "trackMessage db today platform userId displayName messageLength =
     (case validateTrackingParams platform userId displayName messageLength of
        Inl e \<Rightarrow> (Inl e, db)
      | Inr ok \<Rightarrow>
          (case messageLength of
             None \<Rightarrow> (Inl InvalidMessageLength, db)
           | Some len \<Rightarrow>
               (let sanitizedPlatform = trim (toLowerCase platform);
                    sanitizedUserId = trim userId;
                    sanitizedDisplayName = trim displayName;
                    db1 = (prepare ''trackMessage-ensureUser'' db)
                            \<lparr>users := insert_or_ignore_user (sanitizedPlatform, sanitizedUserId)
                                        sanitizedDisplayName (users db)\<rparr>;
                    db2 = (prepare ''trackMessage-updateCounter'' db1)
                            \<lparr>chat_counter :=
                               upsert_counter (today, sanitizedPlatform, sanitizedUserId)
                                 len (chat_counter db1)\<rparr>
                in (Inr (), db2))))"

text \<open>A sequence of calls of \<^verbatim>\<open>trackMessage\<close>, each with the date its clock showed.\<close>

record track_call =
  call_date :: jstring
  call_platform :: jstring
  call_userId :: jstring
  call_displayName :: jstring
  call_messageLength :: number

definition track :: "D1Database \<Rightarrow> track_call \<Rightarrow> (error + unit) \<times> D1Database" where
  "track db c = trackMessage db (call_date c) (call_platform c) (call_userId c)
                  (call_displayName c) (call_messageLength c)"

fun trackMessages :: "D1Database \<Rightarrow> track_call list \<Rightarrow> (error + unit) list \<times> D1Database" where
  "trackMessages db [] = ([], db)"
| "trackMessages db (c # cs) =
     (case track db c of (r, db') \<Rightarrow>
        (case trackMessages db' cs of (rs, db'') \<Rightarrow> (r # rs, db'')))"

text \<open>A call succeeds when its validation passes; it then writes the row \<open>row_key\<close>.\<close>

definition succeeded :: "track_call \<Rightarrow> bool" where
  "succeeded c \<longleftrightarrow>
     validateTrackingParams (call_platform c) (call_userId c) (call_displayName c)
       (call_messageLength c) = Inr ()"

definition row_key :: "track_call \<Rightarrow> counter_key" where
  "row_key c = (call_date c, trim (toLowerCase (call_platform c)), trim (call_userId c))"

definition length_of :: "track_call \<Rightarrow> int" where
  "length_of c = (case call_messageLength c of None \<Rightarrow> 0 | Some n \<Rightarrow> n)"

definition tracked_for :: "counter_key \<Rightarrow> track_call list \<Rightarrow> track_call list" where
  "tracked_for key cs = filter (\<lambda>c. succeeded c \<and> row_key c = key) cs"

definition bump :: "int \<Rightarrow> (int \<times> int) option \<Rightarrow> (int \<times> int) option" where
  "bump len r =
     Some (case r of None \<Rightarrow> (1, len) | Some (n, l) \<Rightarrow> (n + 1, round_double (l + len)))"

definition empty_db :: D1Database where
  "empty_db = \<lparr>users = [], chat_counter = [], prepared = []\<rparr>"

text \<open>Sample data for the instances below.\<close>

definition sample_calls :: "track_call list" where
  "sample_calls =
     [\<lparr>call_date = jstr ''2025-03-01'', call_platform = jstr ''Telegram'',
       call_userId = jstr ''42'', call_displayName = jstr ''Dara'', call_messageLength = Some 5\<rparr>,
      \<lparr>call_date = jstr ''2025-03-01'', call_platform = jstr ''telegram'',
       call_userId = jstr ''7'', call_displayName = jstr ''Bopha'', call_messageLength = Some 3\<rparr>,
      \<lparr>call_date = jstr ''2025-03-01'', call_platform = jstr ''telegram'',
       call_userId = jstr ''42'', call_displayName = jstr ''Dara S.'', call_messageLength = Some (- 1)\<rparr>,
      \<lparr>call_date = jstr ''2025-03-01'', call_platform = jstr ''telegram'',
       call_userId = jstr '' 42 '', call_displayName = jstr ''Dara S.'', call_messageLength = Some 7\<rparr>]"

definition sample_key :: counter_key where
  "sample_key = (jstr ''2025-03-01'', jstr ''telegram'', jstr ''42'')"

definition large_call :: "int \<Rightarrow> track_call" where
  "large_call len =
     \<lparr>call_date = jstr ''2025-03-01'', call_platform = jstr ''discord'',
      call_userId = jstr ''42'', call_displayName = jstr ''Dara'',
      call_messageLength = Some len\<rparr>"

definition large_calls :: "track_call list" where
  "large_calls = [large_call 9007199254740992, large_call 1]"

definition large_key :: counter_key where
  "large_key = (jstr ''2025-03-01'', jstr ''discord'', jstr ''42'')"

subsection \<open>Regular expressions of \<^verbatim>\<open>security-helpers.ts\<close>\<close>

text \<open>
  None of the expressions below has the \<^verbatim>\<open>u\<close> flag except the emoji class, so they work
  on code units. Under \<^verbatim>\<open>i\<close> without \<^verbatim>\<open>u\<close> a code unit matches an ASCII pattern
  character exactly when the two agree after ASCII upper-casing: a code unit from U+0080
  on never canonicalises to an ASCII one.
\<close>

definition ascii_upper :: "code_unit \<Rightarrow> code_unit" where
  "ascii_upper c = (if 0x61 \<le> c \<and> c \<le> 0x7A then c - 0x20 else c)"

definition ci_eq :: "code_unit \<Rightarrow> code_unit \<Rightarrow> bool" where
  "ci_eq p c \<longleftrightarrow> ascii_upper p = ascii_upper c"

fun ci_prefix :: "jstring \<Rightarrow> jstring \<Rightarrow> bool" where
  "ci_prefix [] s = True"
| "ci_prefix (p # ps) [] = False"
| "ci_prefix (p # ps) (c # cs) = (ci_eq p c \<and> ci_prefix ps cs)"

text \<open>\<^verbatim>\<open>\w\<close>\<close>

definition is_word_char :: "code_unit \<Rightarrow> bool" where
  "is_word_char c \<longleftrightarrow>
     (0x30 \<le> c \<and> c \<le> 0x39) \<or> (0x41 \<le> c \<and> c \<le> 0x5A) \<or> c = 0x5F \<or>
     (0x61 \<le> c \<and> c \<le> 0x7A)"

text \<open>\<^verbatim>\<open>.replace(/[<>]/g, '')\<close>\<close>

definition remove_angle_brackets :: "jstring \<Rightarrow> jstring" where
  "remove_angle_brackets s = filter (\<lambda>c. c \<noteq> 0x3C \<and> c \<noteq> 0x3E) s"

text \<open>
  \<^verbatim>\<open>.replace(/javascript:/gi, '')\<close>: one pass from the left; after a match the scan
  goes on behind it, so the result of a removal is not scanned again.
\<close>

definition javascript_marker :: jstring where
  "javascript_marker = jstr ''javascript:''"

fun remove_javascript :: "jstring \<Rightarrow> jstring" where
  "remove_javascript [] = []"
| "remove_javascript (c # cs) =
     (if ci_prefix javascript_marker (c # cs)
      then remove_javascript (drop (length javascript_marker - 1) cs)
      else c # remove_javascript cs)"

text \<open>
  \<^verbatim>\<open>/on\w+=/gi\<close> at the start of \<open>s\<close>: the length of the match, if there is one. The
  greedy \<^verbatim>\<open>\w+\<close> takes the whole run of word characters; giving some of them back
  cannot help, since \<^verbatim>\<open>=\<close> is not a word character.
\<close>

definition event_handler_match :: "jstring \<Rightarrow> nat option" where
  "event_handler_match s =
     (case s of
        c1 # c2 # rest \<Rightarrow>
          if ci_eq 0x6F c1 \<and> ci_eq 0x6E c2
          then (let w = takeWhile is_word_char rest
                in if w \<noteq> [] \<and> take 1 (drop (length w) rest) = [0x3D]
                   then Some (length w + 3) else None)
          else None
      | _ \<Rightarrow> None)"

text \<open>\<^verbatim>\<open>.replace(/on\w+=/gi, '')\<close>\<close>

function remove_event_handlers :: "jstring \<Rightarrow> jstring" where
  "remove_event_handlers [] = []"
| "remove_event_handlers (c # cs) =
     (case event_handler_match (c # cs) of
        Some n \<Rightarrow> remove_event_handlers (drop (n - 1) cs)
      | None \<Rightarrow> c # remove_event_handlers cs)"
  by pat_completeness auto
termination
  by (relation "measure length") auto

text \<open>
  The chain of replacements and the \<^verbatim>\<open>trim\<close>: the constant \<^verbatim>\<open>sanitized\<close> of
  \<^verbatim>\<open>sanitizeInput\<close>.
\<close>

definition sanitized :: "jstring \<Rightarrow> jstring" where
  "sanitized input = trim (remove_event_handlers (remove_javascript (remove_angle_brackets input)))"

text \<open>
  \<open>input\<close> is \<open>None\<close> for a value that is not a string. \<^verbatim>\<open>substring(0, maxLength)\<close>
  takes nothing when \<open>maxLength\<close> is negative, as \<open>take (nat maxLength)\<close> does.
\<close>

definition sanitizeInput :: "jstring option \<Rightarrow> int \<Rightarrow> jstring option" where
  "sanitizeInput input maxLength =
     (case input of
        None \<Rightarrow> None
      | Some s \<Rightarrow>
          if s = [] then None
          else if maxLength < int (length (sanitized s))
               then Some (take (nat maxLength) (sanitized s))
               else Some (sanitized s))"

subsection \<open>\<^verbatim>\<open>detectAbuse\<close>\<close>

text \<open>
  \<^verbatim>\<open>/(.)\1{10,}/g\<close> at the start of \<open>s\<close>: a code unit that \<^verbatim>\<open>.\<close> matches, followed by
  at least ten copies of itself.
\<close>

definition repeated_at :: "jstring \<Rightarrow> bool" where
  "repeated_at s =
     (case s of
        [] \<Rightarrow> False
      | c # cs \<Rightarrow> \<not> is_line_terminator c \<and> 10 \<le> length (takeWhile (\<lambda>d. d = c) cs))"

text \<open>\<^verbatim>\<open>repeatedChars.test(text)\<close>: a match at some position.\<close>

fun repeatedChars_test :: "jstring \<Rightarrow> bool" where
  "repeatedChars_test [] = False"
| "repeatedChars_test (c # cs) = (repeated_at (c # cs) \<or> repeatedChars_test cs)"

text \<open>
  \<^verbatim>\<open>capsPercentage > 0.7 && text.length > 10\<close>. The quotient is a double; compared
  with the double \<^verbatim>\<open>0.7\<close> it gives the answer of the exact comparison
  \<open>10 * caps > 7 * length\<close> for every string shorter than \<open>2^49\<close> code units.
\<close>

definition caps_count :: "jstring \<Rightarrow> nat" where
  "caps_count text = length (filter (\<lambda>c. 0x41 \<le> c \<and> c \<le> 0x5A) text)"

definition excessive_caps :: "jstring \<Rightarrow> bool" where
  "excessive_caps text \<longleftrightarrow> 7 * length text < 10 * caps_count text \<and> 10 < length text"

text \<open>
  The suspicious patterns are literals, two of them joined by \<^verbatim>\<open>.*\<close>, all with the
  \<^verbatim>\<open>i\<close> flag.
\<close>

datatype pattern_item = Literal jstring | DotStar

fun match_here :: "pattern_item list \<Rightarrow> jstring \<Rightarrow> bool" where
  "match_here [] s = True"
| "match_here (Literal p # items) s = (ci_prefix p s \<and> match_here items (drop (length p) s))"
| "match_here (DotStar # items) s =
     (match_here items s \<or>
      (case s of
         [] \<Rightarrow> False
       | c # cs \<Rightarrow> \<not> is_line_terminator c \<and> match_here (DotStar # items) cs))"

fun pattern_test :: "pattern_item list \<Rightarrow> jstring \<Rightarrow> bool" where
  "pattern_test items [] = match_here items []"
| "pattern_test items (c # cs) = (match_here items (c # cs) \<or> pattern_test items cs)"

definition suspiciousPatterns :: "pattern_item list list" where
  "suspiciousPatterns =
     [[Literal (jstr ''bit.ly'')],
      [Literal (jstr ''tinyurl'')],
      [Literal (jstr ''telegram.me/joinchat'')],
      [Literal (jstr ''discord.gg'')],
      [Literal (jstr ''free''), DotStar, Literal (jstr ''crypto'')],
      [Literal (jstr ''click''), DotStar, Literal (jstr ''here''), DotStar, Literal (jstr ''now'')]]"

definition suspicious :: "jstring \<Rightarrow> bool" where
  "suspicious text \<longleftrightarrow> list_ex (\<lambda>pattern. pattern_test pattern text) suspiciousPatterns"

text \<open>
  The emoji class has the \<^verbatim>\<open>u\<close> flag: the text is read by code points, a lead surrogate
  followed by a trail surrogate being one code point.
\<close>

definition is_emoji :: "nat \<Rightarrow> bool" where
  "is_emoji cp \<longleftrightarrow>
     (0x1F600 \<le> cp \<and> cp \<le> 0x1F64F) \<or> (0x1F300 \<le> cp \<and> cp \<le> 0x1F5FF) \<or>
     (0x1F680 \<le> cp \<and> cp \<le> 0x1F6FF) \<or> (0x2600 \<le> cp \<and> cp \<le> 0x26FF) \<or>
     (0x2700 \<le> cp \<and> cp \<le> 0x27BF)"

definition is_lead_surrogate :: "code_unit \<Rightarrow> bool" where
  "is_lead_surrogate c \<longleftrightarrow> 0xD800 \<le> c \<and> c \<le> 0xDBFF"

definition is_trail_surrogate :: "code_unit \<Rightarrow> bool" where
  "is_trail_surrogate c \<longleftrightarrow> 0xDC00 \<le> c \<and> c \<le> 0xDFFF"

definition surrogate_pair :: "code_unit \<Rightarrow> code_unit \<Rightarrow> nat" where
  "surrogate_pair hi lo = 0x10000 + (unat hi - 0xD800) * 0x400 + (unat lo - 0xDC00)"

fun emoji_count :: "jstring \<Rightarrow> nat" where
  "emoji_count [] = 0"
| "emoji_count [c] = (if is_emoji (unat c) then 1 else 0)"
| "emoji_count (c # d # cs) =
     (if is_lead_surrogate c \<and> is_trail_surrogate d
      then (if is_emoji (surrogate_pair c d) then 1 else 0) + emoji_count cs
      else (if is_emoji (unat c) then 1 else 0) + emoji_count (d # cs))"

text \<open>
  \<^verbatim>\<open>emojiCount > text.length * 0.3 && text.length > 5\<close>. The product is a double; for
  every string shorter than \<open>2^49\<close> code units the comparison gives the answer of the exact
  \<open>10 * emojiCount > 3 * length\<close>.
\<close>

definition excessive_emoji :: "jstring \<Rightarrow> bool" where
  "excessive_emoji text \<longleftrightarrow> 3 * length text < 10 * emoji_count text \<and> 5 < length text"

record abuse_report =
  isSpam :: bool
  isFlood :: bool
  containsSuspiciousContent :: bool
  score :: int

text \<open>\<open>text\<close> is \<open>None\<close> for \<^verbatim>\<open>undefined\<close>.\<close>

definition detectAbuse :: "jstring option \<Rightarrow> abuse_report" where
  "detectAbuse text =
     (case text of
        None \<Rightarrow>
          \<lparr>isSpam = False, isFlood = False, containsSuspiciousContent = False, score = 0\<rparr>
      | Some t \<Rightarrow>
          if t = []
          then \<lparr>isSpam = False, isFlood = False, containsSuspiciousContent = False, score = 0\<rparr>
          else
            (let flood = repeatedChars_test t;
                 score1 = (if flood then 30 else 0);
                 score2 = (if excessive_caps t then score1 + 20 else score1);
                 suspect = suspicious t;
                 score3 = (if suspect then score2 + 40 else score2);
                 score4 = (if excessive_emoji t then score3 + 15 else score3)
             in \<lparr>isSpam = (50 \<le> score4), isFlood = flood,
                 containsSuspiciousContent = suspect, score = score4\<rparr>))"

text \<open>The number of the four heuristics that a text triggers.\<close>

definition heuristics_fired :: "jstring \<Rightarrow> nat" where
  "heuristics_fired t =
     (if repeatedChars_test t then 1 else 0) + (if excessive_caps t then 1 else 0) +
     (if suspicious t then 1 else 0) + (if excessive_emoji t then 1 else 0)"

subsection \<open>Statistics and leaderboards (\<^verbatim>\<open>stats-helpers.ts\<close>)\<close>

text \<open>
  The dates the functions compute from the clock: \<open>date_today\<close> is the current UTC
  date, \<open>date_weekAgo\<close> the date seven days earlier and \<open>date_startOfMonth\<close> the first
  day of the current month, all as \<^verbatim>\<open>YYYY-MM-DD\<close>. SQLite compares such texts code unit by code
  unit, which is the lexicographic order of lists.
\<close>

record clock =
  date_today :: jstring
  date_weekAgo :: jstring
  date_startOfMonth :: jstring

definition validateDatabaseParams :: "jstring \<Rightarrow> number \<Rightarrow> error + unit" where
  "validateDatabaseParams platform limit =
     (if platform = [] \<or> toLowerCase platform \<notin> set platforms then Inl InvalidPlatform
      else (case limit of
              None \<Rightarrow> Inl InvalidLimit
            | Some n \<Rightarrow> if n < 1 \<or> 1000 < n then Inl InvalidLimit else Inr ()))"

text \<open>
  A row of a leaderboard. The grouped queries call the last two columns
  \<^verbatim>\<open>total_messages\<close> and \<^verbatim>\<open>total_length\<close>.
\<close>

record leaderboard_row =
  user_id :: jstring
  display_name :: jstring
  message_count :: int
  message_length :: int

text \<open>
  \<^verbatim>\<open>FROM chat_counter cc JOIN users u ON cc.platform = u.platform AND cc.user_id = u.user_id\<close>:
  every pair of a counter row and a user row that agree on platform and user id, with
  the date and platform of the counter row kept for the \<^verbatim>\<open>WHERE\<close> clause.
\<close>

definition join_users :: "D1Database \<Rightarrow> (jstring \<times> jstring \<times> leaderboard_row) list" where
  "join_users db =
     concat (map (\<lambda>((chat_date, platform, uid), (cnt, len)).
                    map (\<lambda>(key, name).
                           (chat_date, platform,
                            \<lparr>user_id = uid, display_name = name,
                             message_count = cnt, message_length = len\<rparr>))
                      (filter (\<lambda>(key, name). key = (platform, uid)) (users db)))
               (chat_counter db))"

text \<open>\<^verbatim>\<open>WHERE cc.platform = ? AND\<close> a condition on \<^verbatim>\<open>cc.chat_date\<close>\<close>

definition select_rows ::
  "D1Database \<Rightarrow> jstring \<Rightarrow> (jstring \<Rightarrow> bool) \<Rightarrow> leaderboard_row list" where
  "select_rows db platform in_period =
     map (\<lambda>(chat_date, p, row). row)
       (filter (\<lambda>(chat_date, p, row). p = platform \<and> in_period chat_date) (join_users db))"

text \<open>
  \<^verbatim>\<open>GROUP BY cc.user_id, u.display_name\<close> with \<^verbatim>\<open>SUM(cc.message_count)\<close> and
  \<^verbatim>\<open>SUM(cc.message_length)\<close>. The sums are exact integers; they are what JavaScript
  receives while they stay below \<open>2^53\<close>.
\<close>

definition group_by_user :: "leaderboard_row list \<Rightarrow> leaderboard_row list" where
  "group_by_user rows =
     map (\<lambda>(uid, name).
            \<lparr>user_id = uid, display_name = name,
             message_count =
               sum_list (map message_count
                 (filter (\<lambda>r. user_id r = uid \<and> display_name r = name) rows)),
             message_length =
               sum_list (map message_length
                 (filter (\<lambda>r. user_id r = uid \<and> display_name r = name) rows))\<rparr>)
       (remdups (map (\<lambda>r. (user_id r, display_name r)) rows))"

text \<open>
  \<^verbatim>\<open>ORDER BY message_count DESC, message_length DESC\<close>. SQL leaves the order of rows
  that agree on both columns open; the model sorts stably.
\<close>

definition order_by_desc :: "leaderboard_row list \<Rightarrow> leaderboard_row list" where
  "order_by_desc rows = sort_key (\<lambda>r. (- message_count r, - message_length r)) rows"

text \<open>
  In the four leaderboard functions the validation has passed where \<open>limit\<close> is read, so
  the branch for \<open>None\<close> is never taken.
\<close>

definition getDailyLeaderboard ::
  "D1Database \<Rightarrow> clock \<Rightarrow> jstring \<Rightarrow> jstring option \<Rightarrow> number
     \<Rightarrow> (error + leaderboard_row list) \<times> D1Database" where
  "getDailyLeaderboard db clk platform date limit =
     (case validateDatabaseParams platform limit of
        Inl e \<Rightarrow> (Inl e, db)
      | Inr ok \<Rightarrow>
          (case limit of
             None \<Rightarrow> (Inl InvalidLimit, db)
           | Some n \<Rightarrow>
               (let targetDate = (case date of None \<Rightarrow> date_today clk
                                  | Some d \<Rightarrow> if d = [] then date_today clk else d)
                in (Inr (take (nat n)
                          (order_by_desc
                             (select_rows db (toLowerCase platform) (\<lambda>d. d = targetDate)))),
                    prepare ''getDailyLeaderboard'' db))))"

definition getWeeklyLeaderboard ::
  "D1Database \<Rightarrow> clock \<Rightarrow> jstring \<Rightarrow> number \<Rightarrow> (error + leaderboard_row list) \<times> D1Database" where
  "getWeeklyLeaderboard db clk platform limit =
     (case validateDatabaseParams platform limit of
        Inl e \<Rightarrow> (Inl e, db)
      | Inr ok \<Rightarrow>
          (case limit of
             None \<Rightarrow> (Inl InvalidLimit, db)
           | Some n \<Rightarrow>
               (let startDate = date_weekAgo clk
                in (Inr (take (nat n)
                          (order_by_desc
                             (group_by_user
                                (select_rows db (toLowerCase platform) (\<lambda>d. startDate \<le> d))))),
                    prepare ''getWeeklyLeaderboard'' db))))"

definition getMonthlyLeaderboard ::
  "D1Database \<Rightarrow> clock \<Rightarrow> jstring \<Rightarrow> number \<Rightarrow> (error + leaderboard_row list) \<times> D1Database" where
  "getMonthlyLeaderboard db clk platform limit =
     (case validateDatabaseParams platform limit of
        Inl e \<Rightarrow> (Inl e, db)
      | Inr ok \<Rightarrow>
          (case limit of
             None \<Rightarrow> (Inl InvalidLimit, db)
           | Some n \<Rightarrow>
               (let startDate = date_startOfMonth clk
                in (Inr (take (nat n)
                          (order_by_desc
                             (group_by_user
                                (select_rows db (toLowerCase platform) (\<lambda>d. startDate \<le> d))))),
                    prepare ''getMonthlyLeaderboard'' db))))"

definition getAllTimeLeaderboard ::
  "D1Database \<Rightarrow> jstring \<Rightarrow> number \<Rightarrow> (error + leaderboard_row list) \<times> D1Database" where
  "getAllTimeLeaderboard db platform limit =
     (case validateDatabaseParams platform limit of
        Inl e \<Rightarrow> (Inl e, db)
      | Inr ok \<Rightarrow>
          (case limit of
             None \<Rightarrow> (Inl InvalidLimit, db)
           | Some n \<Rightarrow>
               (Inr (take (nat n)
                      (order_by_desc
                         (group_by_user (select_rows db (toLowerCase platform) (\<lambda>d. True))))),
                prepare ''getAllTimeLeaderboard'' db)))"

text \<open>The counter rows of a platform, one user and a period.\<close>

definition counter_rows ::
  "D1Database \<Rightarrow> jstring \<Rightarrow> (jstring \<Rightarrow> bool) \<Rightarrow> (jstring \<Rightarrow> bool)
     \<Rightarrow> (counter_key \<times> int \<times> int) list" where
  "counter_rows db platform is_user in_period =
     filter (\<lambda>((chat_date, p, uid), (cnt, len)). p = platform \<and> is_user uid \<and> in_period chat_date)
       (chat_counter db)"

definition sum_message_count :: "(counter_key \<times> int \<times> int) list \<Rightarrow> int" where
  "sum_message_count rows = sum_list (map (\<lambda>(key, (cnt, len)). cnt) rows)"

definition count_distinct_users :: "(counter_key \<times> int \<times> int) list \<Rightarrow> int" where
  "count_distinct_users rows =
     int (length (remdups (map (\<lambda>((chat_date, p, uid), v). uid) rows)))"

text \<open>
  The rank query: the totals per user of the platform, numbered from 1 in descending order
  of the total (\<^verbatim>\<open>ROW_NUMBER() OVER (ORDER BY total_messages DESC)\<close>), looked up at
  the user. Users with equal totals are numbered in the order the stable sort leaves them.
\<close>

definition user_totals :: "D1Database \<Rightarrow> jstring \<Rightarrow> (jstring \<times> int) list" where
  "user_totals db platform =
     map (\<lambda>uid. (uid, sum_message_count (counter_rows db platform (\<lambda>u. u = uid) (\<lambda>d. True))))
       (remdups (map (\<lambda>((chat_date, p, uid), v). uid)
                   (counter_rows db platform (\<lambda>u. True) (\<lambda>d. True))))"

definition ranked_users :: "D1Database \<Rightarrow> jstring \<Rightarrow> (jstring \<times> int) list" where
  "ranked_users db platform =
     (let sorted_totals = sort_key (\<lambda>(uid, total). - total) (user_totals db platform)
      in zip (map fst sorted_totals) (map int [1 ..< Suc (length sorted_totals)]))"

record user_stats =
  daily :: int
  weekly :: int
  monthly :: int
  allTime :: int
  rank :: "int option"

definition getUserStats ::
  "D1Database \<Rightarrow> clock \<Rightarrow> jstring \<Rightarrow> jstring \<Rightarrow> (error + user_stats) \<times> D1Database" where
  "getUserStats db clk platform userId =
     (if platform = [] \<or> toLowerCase platform \<notin> set platforms then (Inl InvalidPlatform, db)
      else if userId = [] \<or> trim userId = [] then (Inl UserIdRequired, db)
      else
        (let p = toLowerCase platform;
             u = trim userId;
             dailyResult = (case counter_rows db p (\<lambda>uid. uid = u) (\<lambda>d. d = date_today clk) of
                              [] \<Rightarrow> None | (key, (cnt, len)) # others \<Rightarrow> Some cnt);
             weeklyResult = sum_message_count
                              (counter_rows db p (\<lambda>uid. uid = u) (\<lambda>d. date_weekAgo clk \<le> d));
             monthlyResult = sum_message_count
                               (counter_rows db p (\<lambda>uid. uid = u) (\<lambda>d. date_startOfMonth clk \<le> d));
             allTimeResult = sum_message_count
                               (counter_rows db p (\<lambda>uid. uid = u) (\<lambda>d. True));
             rankResult = map_of (ranked_users db p) u
         in (Inr \<lparr>daily = (case dailyResult of None \<Rightarrow> 0 | Some cnt \<Rightarrow> cnt),
                  weekly = weeklyResult, monthly = monthlyResult, allTime = allTimeResult,
                  rank = rankResult\<rparr>,
             prepare ''getUserStats-rank''
               (prepare ''getUserStats-allTime''
                  (prepare ''getUserStats-monthly''
                     (prepare ''getUserStats-weekly''
                        (prepare ''getUserStats-daily'' db)))))))"

record platform_stats =
  totalUsers :: int
  totalMessages :: int
  activeToday :: int
  activeThisWeek :: int

definition getPlatformStats ::
  "D1Database \<Rightarrow> clock \<Rightarrow> jstring \<Rightarrow> (error + platform_stats) \<times> D1Database" where
  "getPlatformStats db clk platform =
     (case validateDatabaseParams platform (Some 10) of
        Inl e \<Rightarrow> (Inl e, db)
      | Inr ok \<Rightarrow>
          (let p = toLowerCase platform
           in (Inr \<lparr>totalUsers =
                      int (length (remdups (map (\<lambda>((p', uid), name). uid)
                             (filter (\<lambda>((p', uid), name). p' = p) (users db))))),
                    totalMessages =
                      sum_message_count (counter_rows db p (\<lambda>u. True) (\<lambda>d. True)),
                    activeToday =
                      count_distinct_users (counter_rows db p (\<lambda>u. True) (\<lambda>d. d = date_today clk)),
                    activeThisWeek =
                      count_distinct_users
                        (counter_rows db p (\<lambda>u. True) (\<lambda>d. date_weekAgo clk \<le> d))\<rparr>,
               prepare ''getPlatformStats-activeWeek''
                 (prepare ''getPlatformStats-activeToday''
                    (prepare ''getPlatformStats-totalMessages''
                       (prepare ''getPlatformStats-totalUsers'' db))))))"
















text \<open>The conditions on platform and limit in the words of the specification.\<close>

definition valid_platform :: "jstring \<Rightarrow> bool" where
  "valid_platform platform \<longleftrightarrow>
     toLowerCase platform = jstr ''telegram'' \<or> toLowerCase platform = jstr ''discord''"

definition valid_limit :: "number \<Rightarrow> bool" where
  "valid_limit limit \<longleftrightarrow> (case limit of None \<Rightarrow> False | Some n \<Rightarrow> 1 \<le> n \<and> n \<le> 1000)"

definition sample_db :: D1Database where
  "sample_db =
     \<lparr>users = [((jstr ''telegram'', jstr ''1''), jstr ''Dara''),
               ((jstr ''telegram'', jstr ''2''), jstr ''Bopha''),
               ((jstr ''telegram'', jstr ''3''), jstr ''Sok''),
               ((jstr ''discord'', jstr ''1''), jstr ''dara#1'')],
      chat_counter =
        [((jstr ''2025-02-01'', jstr ''telegram'', jstr ''2''), (9, 99)),
         ((jstr ''2025-03-01'', jstr ''telegram'', jstr ''1''), (2, 30)),
         ((jstr ''2025-03-02'', jstr ''telegram'', jstr ''1''), (3, 10)),
         ((jstr ''2025-03-02'', jstr ''telegram'', jstr ''2''), (3, 50)),
         ((jstr ''2025-03-02'', jstr ''telegram'', jstr ''3''), (7, 70)),
         ((jstr ''2025-03-02'', jstr ''discord'', jstr ''1''), (9, 90))],
      prepared = []\<rparr>"

definition sample_clock :: clock where
  "sample_clock =
     \<lparr>date_today = jstr ''2025-03-02'', date_weekAgo = jstr ''2025-02-23'',
      date_startOfMonth = jstr ''2025-03-01''\<rparr>"


subsection \<open>The leaderboard route of \<^verbatim>\<open>index.ts\<close>\<close>

text \<open>
  \<^verbatim>\<open>parseInt(string)\<close> without a radix: leading whitespace is skipped, a sign is read, the
  prefix \<^verbatim>\<open>0x\<close> selects radix 16, and the longest run of digits is converted; with no
  digit the result is \<^verbatim>\<open>NaN\<close>. The value is exact here; JavaScript rounds a value beyond
  \<open>2^53\<close> to a double, which changes neither the cap at 100 nor the range check on it.
\<close>

definition digit_value :: "code_unit \<Rightarrow> nat option" where
  "digit_value c =
     (if 0x30 \<le> c \<and> c \<le> 0x39 then Some (unat c - 0x30)
      else if 0x61 \<le> c \<and> c \<le> 0x7A then Some (unat c - 0x61 + 10)
      else if 0x41 \<le> c \<and> c \<le> 0x5A then Some (unat c - 0x41 + 10)
      else None)"

definition is_radix_digit :: "nat \<Rightarrow> code_unit \<Rightarrow> bool" where
  "is_radix_digit R c = (case digit_value c of None \<Rightarrow> False | Some v \<Rightarrow> v < R)"

definition digits_value :: "nat \<Rightarrow> jstring \<Rightarrow> nat" where
  "digits_value R Z =
     foldl (\<lambda>acc c. acc * R + (case digit_value c of None \<Rightarrow> 0 | Some v \<Rightarrow> v)) 0 Z"

definition parseInt :: "jstring \<Rightarrow> number" where
  "parseInt string =
     (let S = dropWhile is_whitespace string;
          negative = (take 1 S = [0x2D]);
          S1 = (if take 1 S = [0x2B] \<or> take 1 S = [0x2D] then drop 1 S else S);
          hex = (take 2 S1 = [0x30, 0x78] \<or> take 2 S1 = [0x30, 0x58]);
          R = (if hex then 16 else 10);
          S2 = (if hex then drop 2 S1 else S1);
          Z = takeWhile (is_radix_digit R) S2
      in if Z = [] then None
         else Some ((if negative then - 1 else 1) * int (digits_value R Z)))"

text \<open>\<^verbatim>\<open>Math.min(x, bound)\<close> for an integer bound: \<^verbatim>\<open>NaN\<close> stays \<^verbatim>\<open>NaN\<close>.\<close>

definition Math_min :: "number \<Rightarrow> int \<Rightarrow> number" where
  "Math_min x bound = (case x of None \<Rightarrow> None | Some n \<Rightarrow> Some (min n bound))"

text \<open>
  A response is either an error body with its HTTP status and code, or the leaderboard
  body (status 200) with platform, period, limit, rows and row count.
\<close>

datatype response =
  ErrorResponse int string
| LeaderboardResponse jstring jstring number "leaderboard_row list" nat

text \<open>
  \<^verbatim>\<open>c.req.param("period") || "all"\<close> and \<^verbatim>\<open>c.req.query("limit") || "10"\<close>: an absent or
  empty parameter takes the default.
\<close>

definition or_default :: "jstring option \<Rightarrow> jstring \<Rightarrow> jstring" where
  "or_default param dflt = (case param of None \<Rightarrow> dflt | Some v \<Rightarrow> if v = [] then dflt else v)"

definition effective_limit :: "jstring option \<Rightarrow> number" where
  "effective_limit limitQuery = Math_min (parseInt (or_default limitQuery (jstr ''10''))) 100"

text \<open>
  The handler of \<^verbatim>\<open>GET /api/leaderboard/:platform/:period?\<close>. Whatever the called
  function throws is caught by the handler and answered with status 500.
\<close>

definition leaderboard_route ::
  "D1Database \<Rightarrow> clock \<Rightarrow> jstring \<Rightarrow> jstring option \<Rightarrow> jstring option
     \<Rightarrow> response \<times> D1Database" where
  "leaderboard_route db clk platform periodParam limitQuery =
     (let period = or_default periodParam (jstr ''all'');
          limit = effective_limit limitQuery
      in if platform \<notin> set [jstr ''telegram'', jstr ''discord'']
         then (ErrorResponse 400 ''INVALID_PLATFORM'', db)
         else if period \<notin> set [jstr ''daily'', jstr ''weekly'', jstr ''monthly'', jstr ''all'']
         then (ErrorResponse 400 ''INVALID_PERIOD'', db)
         else
           (case (if period = jstr ''daily'' then getDailyLeaderboard db clk platform None limit
                  else if period = jstr ''weekly'' then getWeeklyLeaderboard db clk platform limit
                  else if period = jstr ''monthly'' then getMonthlyLeaderboard db clk platform limit
                  else getAllTimeLeaderboard db platform limit) of
              (Inl e, db') \<Rightarrow> (ErrorResponse 500 ''INTERNAL_ERROR'', db')
            | (Inr leaderboard, db') \<Rightarrow>
                (LeaderboardResponse platform period limit leaderboard (length leaderboard), db')))"

section \<open>Properties\<close>

subsection \<open>The rate limiter\<close>

text \<open>No call changes the configuration of a limiter.\<close>
lemma perform_config: "perform rl c = (out, rl') \<Longrightarrow> maxRequests rl' = maxRequests rl \<and> windowMs rl' = windowMs rl"
  by (cases c; cases "snd c")
     (auto simp: isRateLimited_def cleanup_def Let_def split: if_splits)

lemma validRequests_later:
  "t \<le> now \<Longrightarrow> windowMs rl' = windowMs rl \<Longrightarrow> validRequests rl now (validRequests rl' t ts) = validRequests rl now ts"
  unfolding validRequests_def filter_filter
  by (rule filter_cong) auto

lemma validRequests_append: "validRequests rl now (xs @ ys) = validRequests rl now xs @ validRequests rl now ys"
  by (simp add: validRequests_def)

lemma validRequests_config: "windowMs rl' = windowMs rl \<Longrightarrow> validRequests rl' = validRequests rl"
  by (simp add: validRequests_def fun_eq_iff)

lemma perform_validCount:
  assumes "perform rl (t, c) = (out, rl')" and "t \<le> now"
  shows "validCount rl' now key =
         validCount rl now key +
           (if c = IsRateLimited key \<and> out = Limited False \<and> now - t < windowMs rl then 1 else 0)"
proof (cases c)
  case (IsRateLimited k)
  show ?thesis
  proof (cases "maxRequests rl \<le> int (length (validRequests rl t (userRequests rl k)))")
    case True
    with assms IsRateLimited show ?thesis by (auto simp: isRateLimited_def Let_def)
  next
    case False
    with assms IsRateLimited have rl': "rl' = rl\<lparr>requests := (requests rl)(k \<mapsto> validRequests rl t (userRequests rl k) @ [t])\<rparr>"
      and out: "out = Limited False"
      by (auto simp: isRateLimited_def Let_def)
    have w: "validRequests rl' = validRequests rl" by (rule validRequests_config) (simp add: rl')
    show ?thesis
    proof (cases "k = key")
      case True
      have "userRequests rl' key = validRequests rl t (userRequests rl key) @ [t]"
        by (simp add: rl' userRequests_def True)
      then show ?thesis using assms(2) IsRateLimited True out
        by (simp add: validCount_def w validRequests_append validRequests_later)
           (simp add: validRequests_def)
    next
      case False
      then have "userRequests rl' key = userRequests rl key" by (simp add: rl' userRequests_def)
      then show ?thesis using False IsRateLimited by (simp add: validCount_def w)
    qed
  qed
next
  case (GetRemainingRequests k)
  with assms show ?thesis by auto
next
  case Cleanup
  with assms have rl': "rl' = cleanup rl t" by simp
  have w: "validRequests rl' = validRequests rl" by (rule validRequests_config) (simp add: rl' cleanup_def)
  have "validRequests rl now (userRequests rl' key) = validRequests rl now (userRequests rl key)"
  proof (cases "requests rl key")
    case None
    then show ?thesis by (simp add: rl' cleanup_def userRequests_def)
  next
    case (Some ts)
    have "validRequests rl now (validRequests rl t ts) = validRequests rl now ts"
      using assms(2) by (simp add: validRequests_later)
    then show ?thesis using Some
      by (auto simp: rl' cleanup_def userRequests_def Let_def)
  qed
  then show ?thesis using Cleanup by (simp add: validCount_def w)
qed

lemma run_length: "run rl cs = (outs, rl') \<Longrightarrow> length outs = length cs"
  by (induction cs arbitrary: rl outs rl') (auto split: prod.splits)

lemma run_config: "run rl cs = (outs, rl') \<Longrightarrow> maxRequests rl' = maxRequests rl \<and> windowMs rl' = windowMs rl"
proof (induction cs arbitrary: rl outs rl')
  case Nil then show ?case by simp
next
  case (Cons c cs)
  obtain out rl1 where p: "perform rl c = (out, rl1)" by (cases "perform rl c")
  obtain outs1 where r: "run rl1 cs = (outs1, rl')"
    using Cons.prems p by (auto split: prod.splits)
  show ?case using Cons.IH[OF r] perform_config[OF p] by simp
qed

lemma run_validCount:
  assumes "run rl cs = (outs, rl')" and "\<forall>(t, c) \<in> set cs. t \<le> now"
  shows "validCount rl' now key =
         validCount rl now key + length (validRequests rl now (accepted key cs outs))"
  using assms
proof (induction cs arbitrary: rl outs)
  case Nil
  then show ?case by (simp add: accepted_def validRequests_def)
next
  case (Cons c cs)
  obtain t op where c: "c = (t, op)" by (cases c)
  obtain out rl1 where p: "perform rl (t, op) = (out, rl1)" by (cases "perform rl (t, op)")
  obtain outs1 where r: "run rl1 cs = (outs1, rl')" and outs: "outs = out # outs1"
    using Cons.prems(1) c p by (auto split: prod.splits)
  have t: "t \<le> now" using Cons.prems(2) c by auto
  have w: "validRequests rl1 = validRequests rl"
    by (rule validRequests_config) (simp add: perform_config[OF p])
  have "validCount rl' now key = validCount rl1 now key + length (validRequests rl1 now (accepted key cs outs1))"
    using Cons.IH[OF r] Cons.prems(2) by simp
  also have "validCount rl1 now key = validCount rl now key +
           (if op = IsRateLimited key \<and> out = Limited False \<and> now - t < windowMs rl then 1 else 0)"
    by (rule perform_validCount[OF p t])
  finally show ?case
    by (simp add: w c outs accepted_def validRequests_def)
qed

lemma limited_if_full:
  "maxRequests rl \<le> int (validCount rl now key) \<Longrightarrow> isRateLimited rl now key = (True, rl)"
  by (simp add: isRateLimited_def validCount_def)


lemma cleanup_validRequests:
  assumes "t \<le> now"
  shows "validRequests rl now (userRequests (cleanup rl t) key) = validRequests rl now (userRequests rl key)"
proof (cases "requests rl key")
  case None
  then show ?thesis by (simp add: cleanup_def userRequests_def)
next
  case (Some ts)
  have "validRequests rl now (validRequests rl t ts) = validRequests rl now ts"
    using assms by (simp add: validRequests_later)
  then show ?thesis using Some
    by (auto simp: cleanup_def userRequests_def Let_def)
qed

lemma cleanup_config: "maxRequests (cleanup rl t) = maxRequests rl \<and> windowMs (cleanup rl t) = windowMs rl"
  by (simp add: cleanup_def)

lemma perform_recorded:
  assumes "perform rl (t, c) = (out, rl')"
  shows "set (userRequests rl' key) \<subseteq>
         set (userRequests rl key) \<union> (if c = IsRateLimited key then {t} else {})"
proof (cases c)
  case (IsRateLimited k)
  with assms show ?thesis
    by (auto simp: isRateLimited_def Let_def userRequests_def validRequests_def split: if_splits)
next
  case (GetRemainingRequests k)
  with assms show ?thesis by auto
next
  case Cleanup
  with assms show ?thesis
    by (auto simp: cleanup_def userRequests_def validRequests_def Let_def split: option.splits if_splits)
qed

lemma run_recorded:
  assumes "run rl cs = (outs, rl')"
  shows "set (userRequests rl' key) \<subseteq>
         set (userRequests rl key) \<union> {t. (t, IsRateLimited key) \<in> set cs}"
  using assms
proof (induction cs arbitrary: rl outs)
  case Nil
  then show ?case by simp
next
  case (Cons c cs)
  obtain t op where c: "c = (t, op)" by (cases c)
  obtain out rl1 where p: "perform rl (t, op) = (out, rl1)" by (cases "perform rl (t, op)")
  obtain outs1 where r: "run rl1 cs = (outs1, rl')"
    using Cons.prems(1) c p by (auto split: prod.splits)
  have a: "set (userRequests rl' key) \<subseteq> set (userRequests rl1 key) \<union> {t. (t, IsRateLimited key) \<in> set cs}"
    by (rule Cons.IH[OF r])
  have b: "set (userRequests rl1 key) \<subseteq> set (userRequests rl key) \<union> (if op = IsRateLimited key then {t} else {})"
    by (rule perform_recorded[OF p])
  show ?case
  proof
    fix x assume "x \<in> set (userRequests rl' key)"
    with a have "x \<in> set (userRequests rl1 key) \<or> (x, IsRateLimited key) \<in> set cs" by auto
    with b c show "x \<in> set (userRequests rl key) \<union> {t. (t, IsRateLimited key) \<in> set (c # cs)}"
      by (auto split: if_splits)
  qed
qed

lemma new_RateLimiter_fresh: "userRequests (new_RateLimiter R W) key = []"
  by (simp add: new_RateLimiter_def userRequests_def)

text \<open>Every limiter of the program allows at least one request.\<close>

lemma limiters_positive:
  "1 \<le> maxRequests commandRateLimiter \<and> 1 \<le> maxRequests summaryRateLimiter \<and>
   1 \<le> maxRequests apiRateLimiter"
  by (simp add: commandRateLimiter_def summaryRateLimiter_def apiRateLimiter_def
      new_RateLimiter_def)

text \<open>
  C2. A limiter constructed with \<open>maxRequests = R\<close> and \<open>windowMs = W\<close> has served any
  history \<open>cs\<close> of calls, on any keys, none of them later than \<open>now\<close>. If at least \<open>R\<close> of
  the calls \<^verbatim>\<open>isRateLimited(key)\<close> that were let through lie less than \<open>W\<close> milliseconds
  before \<open>now\<close>, then \<^verbatim>\<open>isRateLimited(key)\<close> at \<open>now\<close> answers \<^verbatim>\<open>true\<close> and leaves the
  limiter as it was: no timestamp is recorded. If every call \<^verbatim>\<open>isRateLimited(key)\<close> of the
  history lies at least \<open>W\<close> milliseconds before \<open>now\<close>, then \<^verbatim>\<open>isRateLimited(key)\<close> at
  \<open>now\<close> answers \<^verbatim>\<open>false\<close>; here \<open>R\<close> is at least 1, as it is in the three limiters of the
  program (5, 2 and 60).
\<close>

theorem rate_limit_window:
  assumes "run (new_RateLimiter R W) cs = (outs, rl)"
    and "\<forall>(t, c) \<in> set cs. t \<le> now"
  shows "(R \<le> int (length (filter (\<lambda>t. now - t < W) (accepted key cs outs)))
            \<longrightarrow> isRateLimited rl now key = (True, rl)) \<and>
         (1 \<le> R \<and> (\<forall>(t, c) \<in> set cs. c = IsRateLimited key \<longrightarrow> W \<le> now - t)
            \<longrightarrow> fst (isRateLimited rl now key) = False)"
proof (intro conjI impI)
  have cfg: "maxRequests rl = R" "windowMs rl = W"
    using run_config[OF assms(1)] by (simp_all add: new_RateLimiter_def)
  have w0: "windowMs (new_RateLimiter R W) = W" by (simp add: new_RateLimiter_def)
  {
    assume full: "R \<le> int (length (filter (\<lambda>t. now - t < W) (accepted key cs outs)))"
    have "validCount rl now key =
          validCount (new_RateLimiter R W) now key +
          length (validRequests (new_RateLimiter R W) now (accepted key cs outs))"
      by (rule run_validCount[OF assms])
    then have "validCount rl now key = length (filter (\<lambda>t. now - t < W) (accepted key cs outs))"
      by (simp add: validCount_def new_RateLimiter_fresh validRequests_def w0)
    with full cfg show "isRateLimited rl now key = (True, rl)"
      by (simp add: limited_if_full)
  }
  {
    assume quiet: "1 \<le> R \<and> (\<forall>(t, c) \<in> set cs. c = IsRateLimited key \<longrightarrow> W \<le> now - t)"
    have "set (userRequests rl key) \<subseteq> {t. (t, IsRateLimited key) \<in> set cs}"
      using run_recorded[OF assms(1), of key] by (simp add: new_RateLimiter_fresh)
    with quiet have "\<forall>t \<in> set (userRequests rl key). \<not> now - t < W" by fastforce
    then have "validRequests rl now (userRequests rl key) = []"
      by (simp add: validRequests_def cfg)
    with quiet cfg show "fst (isRateLimited rl now key) = False"
      by (simp add: isRateLimited_def)
  }
qed

text \<open>
  An instance on the summary limiter (two requests in five minutes): two calls let through
  at 0 and 10. The call at 20 is refused and changes nothing; the call at 400000 is let
  through.
\<close>

theorem rate_limit_window_witness:
  "run summaryRateLimiter [(0, IsRateLimited (jstr ''k'')), (10, IsRateLimited (jstr ''k''))]
     = ([Limited False, Limited False],
        \<lparr>requests = [jstr ''k'' \<mapsto> [0, 10]], maxRequests = 2, windowMs = 300000\<rparr>) \<and>
   accepted (jstr ''k'') [(0, IsRateLimited (jstr ''k'')), (10, IsRateLimited (jstr ''k''))]
     [Limited False, Limited False] = [0, 10] \<and>
   isRateLimited \<lparr>requests = [jstr ''k'' \<mapsto> [0, 10]], maxRequests = 2, windowMs = 300000\<rparr>
     20 (jstr ''k'')
     = (True, \<lparr>requests = [jstr ''k'' \<mapsto> [0, 10]], maxRequests = 2, windowMs = 300000\<rparr>) \<and>
   fst (isRateLimited \<lparr>requests = [jstr ''k'' \<mapsto> [0, 10]], maxRequests = 2, windowMs = 300000\<rparr>
          400000 (jstr ''k'')) = False"
proof -
  let ?cs = "[(0, IsRateLimited (jstr ''k'')), (10, IsRateLimited (jstr ''k''))]"
  let ?rl = "\<lparr>requests = [jstr ''k'' \<mapsto> [0, 10]], maxRequests = 2, windowMs = 300000\<rparr>"
  have r: "run (new_RateLimiter 2 300000) ?cs = ([Limited False, Limited False], ?rl)"
    by (simp add: new_RateLimiter_def isRateLimited_def validRequests_def userRequests_def)
  have a: "accepted (jstr ''k'') ?cs [Limited False, Limited False] = [0, 10]"
    by (simp add: accepted_def)
  have "isRateLimited ?rl 20 (jstr ''k'') = (True, ?rl)"
    using rate_limit_window[OF r, of 20 "jstr ''k''"] by (simp add: a)
  moreover have "fst (isRateLimited ?rl 400000 (jstr ''k'')) = False"
    using rate_limit_window[OF r, of 400000 "jstr ''k''"] by simp
  ultimately show ?thesis using r a by (simp add: summaryRateLimiter_def)
qed

text \<open>
  For the three limiters of the program the two halves need no proviso.
\<close>

lemma program_limiters_window:
  assumes "rl0 = commandRateLimiter \<or> rl0 = summaryRateLimiter \<or> rl0 = apiRateLimiter"
    and "run rl0 cs = (outs, rl)"
    and "\<forall>(t, c) \<in> set cs. t \<le> now"
  shows "(maxRequests rl0 \<le>
            int (length (filter (\<lambda>t. now - t < windowMs rl0) (accepted key cs outs)))
            \<longrightarrow> isRateLimited rl now key = (True, rl)) \<and>
         ((\<forall>(t, c) \<in> set cs. c = IsRateLimited key \<longrightarrow> windowMs rl0 \<le> now - t)
            \<longrightarrow> fst (isRateLimited rl now key) = False)"
proof -
  have full: "maxRequests rl0 \<le>
            int (length (filter (\<lambda>t. now - t < windowMs rl0) (accepted key cs outs)))
            \<Longrightarrow> isRateLimited rl now key = (True, rl)"
    using assms(1,2) run_validCount[OF assms(2,3), of key] run_config[OF assms(2)]
    by (auto simp: validCount_def validRequests_def commandRateLimiter_def
        summaryRateLimiter_def apiRateLimiter_def new_RateLimiter_def userRequests_def
        isRateLimited_def)
  have quiet: "(\<forall>(t, c) \<in> set cs. c = IsRateLimited key \<longrightarrow> windowMs rl0 \<le> now - t)
            \<Longrightarrow> fst (isRateLimited rl now key) = False"
  proof -
    assume q: "\<forall>(t, c) \<in> set cs. c = IsRateLimited key \<longrightarrow> windowMs rl0 \<le> now - t"
    have fresh: "userRequests rl0 key = []"
      using assms(1) by (auto simp: commandRateLimiter_def summaryRateLimiter_def
          apiRateLimiter_def new_RateLimiter_fresh)
    have cfg: "maxRequests rl = maxRequests rl0" "windowMs rl = windowMs rl0"
      using run_config[OF assms(2)] by simp_all
    have pos: "1 \<le> maxRequests rl0"
      using assms(1) limiters_positive by auto
    have "set (userRequests rl key) \<subseteq> {t. (t, IsRateLimited key) \<in> set cs}"
      using run_recorded[OF assms(2), of key] by (simp add: fresh)
    with q have "\<forall>t \<in> set (userRequests rl key). \<not> now - t < windowMs rl0" by fastforce
    then have "validRequests rl now (userRequests rl key) = []"
      by (simp add: validRequests_def cfg)
    with pos cfg show "fst (isRateLimited rl now key) = False"
      by (simp add: isRateLimited_def)
  qed
  from full quiet show ?thesis by blast
qed

text \<open>
  C9. Whatever the state of the limiter, a \<^verbatim>\<open>cleanup()\<close> at time \<open>t\<close> does not change what
  a call of \<^verbatim>\<open>isRateLimited(key)\<close> or \<^verbatim>\<open>getRemainingRequests(key)\<close> at the same or a later
  time \<open>t'\<close> returns.
\<close>

theorem cleanup_transparent:
  assumes "t \<le> t'"
  shows "fst (isRateLimited (cleanup rl t) t' key) = fst (isRateLimited rl t' key) \<and>
         getRemainingRequests (cleanup rl t) t' key = getRemainingRequests rl t' key"
proof -
  have w: "validRequests (cleanup rl t) = validRequests rl"
    by (rule validRequests_config) (simp add: cleanup_config)
  have v: "validRequests (cleanup rl t) t' (userRequests (cleanup rl t) key) =
           validRequests rl t' (userRequests rl key)"
    by (simp add: w cleanup_validRequests[OF assms])
  show ?thesis
    by (simp add: isRateLimited_def getRemainingRequests_def v cleanup_config Let_def)
qed

text \<open>
  An instance: a limiter of two requests per second that holds one expired and one live
  timestamp for a key.
\<close>

theorem cleanup_transparent_witness:
  "(1500::int) \<le> 1600 \<and>
   fst (isRateLimited
          (cleanup \<lparr>requests = [jstr ''k'' \<mapsto> [0, 1000]], maxRequests = 2, windowMs = 1000\<rparr> 1500)
          1600 (jstr ''k'')) = False \<and>
   fst (isRateLimited \<lparr>requests = [jstr ''k'' \<mapsto> [0, 1000]], maxRequests = 2, windowMs = 1000\<rparr>
          1600 (jstr ''k'')) = False \<and>
   getRemainingRequests
     (cleanup \<lparr>requests = [jstr ''k'' \<mapsto> [0, 1000]], maxRequests = 2, windowMs = 1000\<rparr> 1500)
     1600 (jstr ''k'') = 1 \<and>
   getRemainingRequests \<lparr>requests = [jstr ''k'' \<mapsto> [0, 1000]], maxRequests = 2, windowMs = 1000\<rparr>
     1600 (jstr ''k'') = 1"
  using cleanup_transparent
    [of 1500 1600 "\<lparr>requests = [jstr ''k'' \<mapsto> [0, 1000]], maxRequests = 2, windowMs = 1000\<rparr>"
        "jstr ''k''"]
  by (simp add: isRateLimited_def getRemainingRequests_def validRequests_def userRequests_def)

subsection \<open>Message tracking\<close>

text \<open>Below \<open>2^53\<close> the rounding changes nothing; \<open>2^53 + 1\<close> is rounded to \<open>2^53\<close>.\<close>

lemma round_double_safe:
  assumes "\<bar>n\<bar> \<le> MAX_SAFE_INTEGER"
  shows "round_double n = n"
proof -
  have "nat \<bar>n\<bar> < 9007199254740992" using assms by (simp add: MAX_SAFE_INTEGER_def)
  then have e: "double_exponent (nat \<bar>n\<bar>) = 0" by (simp add: double_exponent.simps)
  have "sgn n * \<bar>n\<bar> = n" by (simp add: mult_sgn_abs)
  then show ?thesis by (simp add: round_double_def Let_def e)
qed

lemma round_double_example: "round_double 9007199254740993 = 9007199254740992"
proof -
  have e1: "double_exponent 4503599627370496 = 0" by (simp add: double_exponent.simps)
  have e: "double_exponent 9007199254740993 = 1"
    by (subst double_exponent.simps) (simp add: e1)
  have n: "nat \<bar>9007199254740993\<bar> = 9007199254740993" by simp
  show ?thesis unfolding round_double_def Let_def n e by simp
qed

lemma map_of_upsert_counter:
  "map_of (upsert_counter key len rows) k =
     (if k = key
      then Some (case map_of rows key of
                   None \<Rightarrow> (1, len)
                 | Some (n, l) \<Rightarrow> (n + 1, round_double (l + len)))
      else map_of rows k)"
proof (cases "map_of rows key")
  case None
  then show ?thesis by (auto simp: upsert_counter_def map_add_def split: option.splits)
next
  case (Some v)
  then show ?thesis by (cases v) (simp add: upsert_counter_def update_conv')
qed

lemma snd_trackMessages_Cons:
  "snd (trackMessages db (c # cs)) = snd (trackMessages (snd (track db c)) cs)"
  by (simp split: prod.splits)

lemma track_counter:
  "map_of (chat_counter (snd (track db c))) k =
     (if succeeded c \<and> row_key c = k then bump (length_of c) (map_of (chat_counter db) k)
      else map_of (chat_counter db) k)"
proof (cases "validateTrackingParams (call_platform c) (call_userId c) (call_displayName c) (call_messageLength c)")
  case (Inl e)
  then show ?thesis by (simp add: track_def trackMessage_def succeeded_def)
next
  case (Inr u)
  then obtain len where len: "call_messageLength c = Some len"
    by (auto simp: validateTrackingParams_def split: if_splits option.splits)
  show ?thesis using Inr len
    by (simp add: track_def trackMessage_def succeeded_def Let_def map_of_upsert_counter
        row_key_def length_of_def bump_def prepare_def)
qed

lemma succeeded_nonneg: "succeeded c \<Longrightarrow> 0 \<le> length_of c"
  by (auto simp: succeeded_def validateTrackingParams_def length_of_def
      split: if_splits option.splits)

lemma sum_lengths_nonneg: "\<forall>c \<in> set cs. succeeded c \<Longrightarrow> 0 \<le> sum_list (map length_of cs)"
  by (induction cs) (auto dest: succeeded_nonneg)

lemma tracked_for_succeeded: "\<forall>c \<in> set (tracked_for k cs). succeeded c"
  by (simp add: tracked_for_def)

lemma bump_tracked:
  assumes "r = (if hits = [] then None
                else Some (int (length hits), sum_list (map length_of hits)))"
    and "0 \<le> sum_list (map length_of hits) + length_of c"
    and "sum_list (map length_of hits) + length_of c \<le> MAX_SAFE_INTEGER"
  shows "bump (length_of c) r =
           Some (int (length (hits @ [c])), sum_list (map length_of (hits @ [c])))"
proof -
  have "\<bar>sum_list (map length_of hits) + length_of c\<bar> \<le> MAX_SAFE_INTEGER"
    using assms(2,3) by simp
  then have "round_double (sum_list (map length_of hits) + length_of c) =
             sum_list (map length_of hits) + length_of c"
    by (rule round_double_safe)
  then show ?thesis using assms(1) by (simp add: bump_def)
qed

lemma trackMessages_counter:
  assumes "map_of (chat_counter db) k =
           (if pre = [] then None else Some (int (length pre), sum_list (map length_of pre)))"
    and "\<forall>c \<in> set pre. succeeded c"
    and "sum_list (map length_of (pre @ tracked_for k cs)) \<le> MAX_SAFE_INTEGER"
  shows "map_of (chat_counter (snd (trackMessages db cs))) k =
           (let hits = pre @ tracked_for k cs
            in if hits = [] then None else Some (int (length hits), sum_list (map length_of hits)))"
  using assms
proof (induction cs arbitrary: db pre)
  case Nil
  then show ?case by (simp add: tracked_for_def)
next
  case (Cons c cs)
  obtain r db1 where t: "track db c = (r, db1)" by (cases "track db c")
  have db1: "db1 = snd (track db c)" using t by simp
  show ?case
  proof (cases "succeeded c \<and> row_key c = k")
    case True
    have tf: "tracked_for k (c # cs) = c # tracked_for k cs"
      using True by (simp add: tracked_for_def)
    have rest: "0 \<le> sum_list (map length_of (tracked_for k cs))"
      by (rule sum_lengths_nonneg) (rule tracked_for_succeeded)
    have pre0: "0 \<le> sum_list (map length_of pre)"
      by (rule sum_lengths_nonneg) (rule Cons.prems(2))
    have c0: "0 \<le> length_of c" using True by (simp add: succeeded_nonneg)
    have total: "sum_list (map length_of pre) + length_of c + sum_list (map length_of (tracked_for k cs))
                   \<le> MAX_SAFE_INTEGER"
      using Cons.prems(3) by (simp add: tf add.assoc)
    have "map_of (chat_counter db1) k = bump (length_of c) (map_of (chat_counter db) k)"
      using True by (simp add: db1 track_counter)
    also have "\<dots> = Some (int (length (pre @ [c])), sum_list (map length_of (pre @ [c])))"
    proof (rule bump_tracked)
      show "map_of (chat_counter db) k =
              (if pre = [] then None else Some (int (length pre), sum_list (map length_of pre)))"
        by (rule Cons.prems(1))
      show "0 \<le> sum_list (map length_of pre) + length_of c" using pre0 c0 by simp
      show "sum_list (map length_of pre) + length_of c \<le> MAX_SAFE_INTEGER"
        using total rest by linarith
    qed
    finally have row: "map_of (chat_counter db1) k =
        (if pre @ [c] = [] then None else Some (int (length (pre @ [c])), sum_list (map length_of (pre @ [c]))))"
      by simp
    have ok: "\<forall>c \<in> set (pre @ [c]). succeeded c" using Cons.prems(2) True by simp
    have bound: "sum_list (map length_of ((pre @ [c]) @ tracked_for k cs)) \<le> MAX_SAFE_INTEGER"
      using total by simp
    show ?thesis
      using Cons.IH[OF row ok bound] by (simp add: snd_trackMessages_Cons db1 tf del: trackMessages.simps)
  next
    case False
    have tf: "tracked_for k (c # cs) = tracked_for k cs"
      using False by (auto simp: tracked_for_def)
    have "map_of (chat_counter db1) k = map_of (chat_counter db) k"
      using False by (auto simp: db1 track_counter)
    with Cons.prems(1) have row: "map_of (chat_counter db1) k =
        (if pre = [] then None else Some (int (length pre), sum_list (map length_of pre)))"
      by simp
    have bound: "sum_list (map length_of (pre @ tracked_for k cs)) \<le> MAX_SAFE_INTEGER"
      using Cons.prems(3) by (simp add: tf)
    show ?thesis
      using Cons.IH[OF row Cons.prems(2) bound]
      by (simp add: snd_trackMessages_Cons db1 tf del: trackMessages.simps)
  qed
qed

lemmas track_eval = tracked_for_def succeeded_def row_key_def
        validateTrackingParams_def platforms_def toLowerCase_def toLowerCase_unit_def trim_def
        is_whitespace_def jstr_def

lemma large_call_tracked:
  "0 \<le> len \<Longrightarrow>
   succeeded (large_call len) \<and> row_key (large_call len) = large_key \<and>
   length_of (large_call len) = len"
  by (simp add: large_call_def large_key_def length_of_def track_eval)

text \<open>
  C1. Take any date, platform and user, and let \<open>key\<close> be their row of \<^verbatim>\<open>chat_counter\<close>
  (\<^verbatim>\<open>trackMessage\<close> stores the platform in lower case and the user id trimmed). Start from
  a database without that row and run any sequence of \<^verbatim>\<open>trackMessage\<close> calls. If \<open>N \<ge> 1\<close>
  of them succeed for that user on that date, with message lengths \<open>L1 .. LN\<close> whose sum is
  at most \<open>2^53 - 1\<close>, the row then holds \<open>message_count = N\<close> and
  \<open>message_length = L1 + ... + LN\<close>. Calls for other users or dates, and calls that fail,
  may come in between.
\<close>

theorem trackMessage_counts:
  assumes "map_of (chat_counter db) key = None"
    and "tracked_for key calls \<noteq> []"
    and "sum_list (map length_of (tracked_for key calls)) \<le> MAX_SAFE_INTEGER"
  shows "map_of (chat_counter (snd (trackMessages db calls))) key =
           Some (int (length (tracked_for key calls)),
                 sum_list (map length_of (tracked_for key calls)))"
  using trackMessages_counter[of db key "[]" calls] assms by (simp add: Let_def)

text \<open>
  An instance: four calls on one day. Two of them succeed for user 42 on Telegram, with
  lengths 5 and 7; one is for another user and one fails its validation.
\<close>

theorem trackMessage_counts_witness:
  "map_of (chat_counter empty_db) sample_key = None \<and>
   length (tracked_for sample_key sample_calls) = 2 \<and>
   sum_list (map length_of (tracked_for sample_key sample_calls)) = 12 \<and>
   12 \<le> MAX_SAFE_INTEGER \<and>
   map_of (chat_counter (snd (trackMessages empty_db sample_calls))) sample_key = Some (2, 12)"
proof -
  have t: "tracked_for sample_key sample_calls = [sample_calls ! 0, sample_calls ! 3]"
    by (simp add: sample_calls_def sample_key_def track_eval)
  have l: "length_of (sample_calls ! 0) + length_of (sample_calls ! 3) = 12"
    by (simp add: sample_calls_def length_of_def)
  have e: "map_of (chat_counter empty_db) sample_key = None"
    by (simp add: empty_db_def)
  have m: "(12::int) \<le> MAX_SAFE_INTEGER" by (simp add: MAX_SAFE_INTEGER_def)
  show ?thesis
    using trackMessage_counts[of empty_db sample_key sample_calls] e m
    by (simp add: t l)
qed

text \<open>
  Without the bound the sum is not exact. The Discord webhook passes
  \<^verbatim>\<open>payload.content.length\<close> on unchecked, and the validation accepts the integral double
  \<open>2^53\<close>: after the lengths \<open>2^53\<close> and 1 the row holds \<open>2^53\<close>, not \<open>2^53 + 1\<close>.
\<close>

theorem trackMessage_large_counterexample:
  "map_of (chat_counter empty_db) large_key = None \<and>
   map (\<lambda>c. (succeeded c, row_key c = large_key, length_of c)) large_calls =
     [(True, True, 9007199254740992), (True, True, 1)] \<and>
   sum_list (map length_of (tracked_for large_key large_calls)) = 9007199254740993 \<and>
   map_of (chat_counter (snd (trackMessages empty_db large_calls))) large_key =
     Some (2, 9007199254740992)"
proof -
  have s0: "succeeded (large_call 9007199254740992) \<and>
            row_key (large_call 9007199254740992) = large_key \<and>
            length_of (large_call 9007199254740992) = 9007199254740992"
    by (rule large_call_tracked) simp
  have s1: "succeeded (large_call 1) \<and> row_key (large_call 1) = large_key \<and>
            length_of (large_call 1) = 1"
    by (rule large_call_tracked) simp
  have e: "map_of (chat_counter empty_db) large_key = None"
    by (simp add: empty_db_def)
  have "snd (trackMessages empty_db large_calls) =
          snd (track (snd (track empty_db (large_call 9007199254740992))) (large_call 1))"
    by (simp add: large_calls_def split: prod.splits)
  then have "map_of (chat_counter (snd (trackMessages empty_db large_calls))) large_key =
          bump 1 (bump 9007199254740992 None)"
    by (simp add: track_counter s0 s1 e)
  also have "\<dots> = Some (2, 9007199254740992)"
    by (simp add: bump_def round_double_example)
  finally show ?thesis using s0 s1 e by (simp add: large_calls_def tracked_for_def)
qed

text \<open>
  C5. No call of \<^verbatim>\<open>trackMessage\<close> removes a row of \<^verbatim>\<open>users\<close>, and a pair
  \<^verbatim>\<open>(platform, user_id)\<close> that has a display name keeps it.
\<close>

theorem trackMessage_keeps_users:
  "(\<forall>row \<in> set (users db).
      row \<in> set (users (snd (trackMessage db today platform userId displayName messageLength)))) \<and>
   (\<forall>key name. map_of (users db) key = Some name \<longrightarrow>
      map_of (users (snd (trackMessage db today platform userId displayName messageLength))) key
        = Some name)"
  by (auto simp: trackMessage_def Let_def insert_or_ignore_user_def map_add_Some_iff prepare_def
      split: sum.splits option.splits)

text \<open>
  An instance: user 42 is first seen as Dara; a later message under another display name
  leaves the stored row as it was.
\<close>

theorem trackMessage_keeps_users_witness:
  "map_of (users (snd (trackMessage empty_db (jstr ''2025-03-01'') (jstr ''telegram'')
                         (jstr ''42'') (jstr ''Dara'') (Some 5))))
     (jstr ''telegram'', jstr ''42'') = Some (jstr ''Dara'') \<and>
   map_of (users (snd (trackMessage
                         (snd (trackMessage empty_db (jstr ''2025-03-01'') (jstr ''telegram'')
                                 (jstr ''42'') (jstr ''Dara'') (Some 5)))
                         (jstr ''2025-03-02'') (jstr ''telegram'') (jstr ''42'') (jstr ''Dara S.'')
                         (Some 9))))
     (jstr ''telegram'', jstr ''42'') = Some (jstr ''Dara'')"
proof -
  let ?db = "snd (trackMessage empty_db (jstr ''2025-03-01'') (jstr ''telegram'')
                    (jstr ''42'') (jstr ''Dara'') (Some 5))"
  have u: "users ?db = [((jstr ''telegram'', jstr ''42''), jstr ''Dara'')]"
    by (simp add: trackMessage_def empty_db_def insert_or_ignore_user_def Let_def prepare_def
        validateTrackingParams_def platforms_def toLowerCase_def toLowerCase_unit_def trim_def
        is_whitespace_def jstr_def)
  then have m: "map_of (users ?db) (jstr ''telegram'', jstr ''42'') = Some (jstr ''Dara'')"
    by simp
  with trackMessage_keeps_users
    [of ?db "jstr ''2025-03-02''" "jstr ''telegram''" "jstr ''42''" "jstr ''Dara S.''" "Some 9"]
  show ?thesis by blast
qed

text \<open>
  The uniqueness constraints of the schema hold in the empty database and after every call
  of \<^verbatim>\<open>trackMessage\<close>: they hold in every database the program writes.
\<close>

lemma wf_empty_db: "wf_db empty_db"
  by (simp add: wf_db_def empty_db_def)

lemma distinct_insert_or_ignore_user:
  "distinct (map fst rows) \<Longrightarrow> distinct (map fst (insert_or_ignore_user key name rows))"
  by (auto simp: insert_or_ignore_user_def map_of_eq_None_iff split: option.splits)

lemma distinct_upsert_counter:
  "distinct (map fst rows) \<Longrightarrow> distinct (map fst (upsert_counter key len rows))"
  by (auto simp: upsert_counter_def map_of_eq_None_iff distinct_update split: option.splits)

lemma trackMessage_wf:
  "wf_db db \<Longrightarrow> wf_db (snd (trackMessage db today platform userId displayName messageLength))"
  by (auto simp: trackMessage_def wf_db_def Let_def prepare_def distinct_insert_or_ignore_user
      distinct_upsert_counter split: sum.splits option.splits)

subsection \<open>Input sanitising\<close>

lemma set_remove_javascript: "set (remove_javascript s) \<subseteq> set s"
proof (induction s rule: remove_javascript.induct)
  case 1
  then show ?case by simp
next
  case (2 c cs)
  show ?case
  proof (cases "ci_prefix javascript_marker (c # cs)")
    case True
    with 2 have "set (remove_javascript (c # cs)) \<subseteq> set (drop (length javascript_marker - 1) cs)"
      by simp
    also have "\<dots> \<subseteq> set cs" by (rule set_drop_subset)
    finally show ?thesis by auto
  next
    case False
    with 2 show ?thesis by auto
  qed
qed

lemma set_remove_event_handlers: "set (remove_event_handlers s) \<subseteq> set s"
proof (induction s rule: remove_event_handlers.induct)
  case 1
  then show ?case by simp
next
  case (2 c cs)
  show ?case
  proof (cases "event_handler_match (c # cs)")
    case None
    with 2 show ?thesis by auto
  next
    case (Some n)
    with 2 have "set (remove_event_handlers (c # cs)) \<subseteq> set (drop (n - 1) cs)"
      by simp
    also have "\<dots> \<subseteq> set cs" by (rule set_drop_subset)
    finally show ?thesis by auto
  qed
qed

lemma trim_decomp: "dropWhile is_whitespace s = trim s @ rev (takeWhile is_whitespace (rev (dropWhile is_whitespace s)))"
proof -
  let ?a = "dropWhile is_whitespace s"
  have "rev (takeWhile is_whitespace (rev ?a) @ dropWhile is_whitespace (rev ?a)) = ?a"
    by (simp only: takeWhile_dropWhile_id rev_rev_ident)
  then have "rev (dropWhile is_whitespace (rev ?a)) @ rev (takeWhile is_whitespace (rev ?a)) = ?a"
    by (simp only: rev_append)
  then show ?thesis unfolding trim_def by (rule sym)
qed

lemma set_trim: "set (trim s) \<subseteq> set s"
proof -
  have "set (trim s) \<subseteq> set (dropWhile is_whitespace s)"
    using trim_decomp[of s] by (metis Un_upper1 set_append)
  also have "\<dots> \<subseteq> set s" by (rule set_dropWhileD[THEN subsetI]) 
  finally show ?thesis .
qed

lemma hd_trim: "trim s \<noteq> [] \<Longrightarrow> \<not> is_whitespace (hd (trim s))"
proof -
  assume ne: "trim s \<noteq> []"
  let ?a = "dropWhile is_whitespace s"
  have a: "?a = trim s @ rev (takeWhile is_whitespace (rev ?a))" by (rule trim_decomp)
  have "?a \<noteq> []" using a ne by (metis Nil_is_append_conv)
  then have "\<not> is_whitespace (hd ?a)" by (rule hd_dropWhile)
  moreover have "hd ?a = hd (trim s)" using a ne by (metis hd_append2)
  ultimately show ?thesis by simp
qed

lemma last_trim: "trim s \<noteq> [] \<Longrightarrow> \<not> is_whitespace (last (trim s))"
proof -
  assume ne: "trim s \<noteq> []"
  let ?b = "dropWhile is_whitespace (rev (dropWhile is_whitespace s))"
  have t: "trim s = rev ?b" by (simp add: trim_def)
  with ne have b: "?b \<noteq> []" by simp
  then have "\<not> is_whitespace (hd ?b)" by (rule hd_dropWhile)
  moreover have "last (trim s) = hd ?b" using b by (simp add: t last_rev)
  ultimately show ?thesis by simp
qed

lemma sanitized_no_angle: "0x3C \<notin> set (sanitized s) \<and> 0x3E \<notin> set (sanitized s)"
proof -
  have "set (sanitized s) \<subseteq> set (remove_angle_brackets s)"
    unfolding sanitized_def
    using set_trim set_remove_event_handlers set_remove_javascript
    by (meson subset_trans)
  then show ?thesis by (auto simp: remove_angle_brackets_def)
qed

lemma sanitized_ab_cd: "sanitized (jstr ''ab cd'') = jstr ''ab cd''"
  by (simp add: sanitized_def remove_angle_brackets_def javascript_marker_def event_handler_match_def
      trim_def is_whitespace_def ci_eq_def ascii_upper_def jstr_def)

lemma sanitized_script: "sanitized (jstr ''<script>alert(1)</script>'') = jstr ''scriptalert(1)/script''"
  by (simp add: sanitized_def remove_angle_brackets_def javascript_marker_def event_handler_match_def
      trim_def is_whitespace_def ci_eq_def ascii_upper_def jstr_def)

text \<open>
  C6. \<^verbatim>\<open>sanitizeInput\<close> returns \<^verbatim>\<open>null\<close> for an input that is not a string and for the
  empty string. For every other input it returns a string \<open>r\<close>: the text with angle
  brackets, \<^verbatim>\<open>javascript:\<close> markers and \<^verbatim>\<open>on\w+=\<close> patterns removed and then trimmed,
  cut to its first \<open>maxLength\<close> code units when it is longer. \<open>r\<close> contains neither \<^verbatim>\<open><\<close>
  nor \<^verbatim>\<open>>\<close> and does not start with whitespace; it does not end with whitespace when
  nothing was cut; and it is at most \<open>maxLength\<close> long when \<open>maxLength \<ge> 0\<close>.
\<close>

theorem sanitizeInput_result:
  "sanitizeInput None maxLength = None \<and>
   sanitizeInput (Some []) maxLength = None \<and>
   (s \<noteq> [] \<longrightarrow>
      (\<exists>r. sanitizeInput (Some s) maxLength = Some r \<and>
           r = (if maxLength < int (length (sanitized s))
                then take (nat maxLength) (sanitized s) else sanitized s) \<and>
           0x3C \<notin> set r \<and> 0x3E \<notin> set r \<and>
           (r \<noteq> [] \<longrightarrow> \<not> is_whitespace (hd r)) \<and>
           (int (length (sanitized s)) \<le> maxLength \<and> r \<noteq> [] \<longrightarrow> \<not> is_whitespace (last r)) \<and>
           (0 \<le> maxLength \<longrightarrow> int (length r) \<le> maxLength)))"
proof (intro conjI impI)
  show "sanitizeInput None maxLength = None" by (simp add: sanitizeInput_def)
  show "sanitizeInput (Some []) maxLength = None" by (simp add: sanitizeInput_def)
  assume s: "s \<noteq> []"
  define r where "r = (if maxLength < int (length (sanitized s))
                then take (nat maxLength) (sanitized s) else sanitized s)"
  have res: "sanitizeInput (Some s) maxLength = Some r"
    using s by (simp add: sanitizeInput_def r_def)
  have sub: "set r \<subseteq> set (sanitized s)"
    by (auto simp: r_def dest: in_set_takeD)
  have angle: "0x3C \<notin> set r \<and> 0x3E \<notin> set r"
    using sub sanitized_no_angle[of s] by blast
  have hd: "r \<noteq> [] \<longrightarrow> \<not> is_whitespace (hd r)"
  proof
    assume ne: "r \<noteq> []"
    then have ne': "sanitized s \<noteq> []" by (auto simp: r_def split: if_splits)
    have "hd r = hd (sanitized s)" using ne by (auto simp: r_def hd_take split: if_splits)
    then show "\<not> is_whitespace (hd r)" using hd_trim[of "remove_event_handlers (remove_javascript (remove_angle_brackets s))"] ne'
      by (simp add: sanitized_def)
  qed
  have last: "int (length (sanitized s)) \<le> maxLength \<and> r \<noteq> [] \<longrightarrow> \<not> is_whitespace (last r)"
  proof
    assume a: "int (length (sanitized s)) \<le> maxLength \<and> r \<noteq> []"
    then have "r = sanitized s" by (simp add: r_def)
    then show "\<not> is_whitespace (last r)"
      using a last_trim[of "remove_event_handlers (remove_javascript (remove_angle_brackets s))"]
      by (simp add: sanitized_def)
  qed
  have len: "0 \<le> maxLength \<longrightarrow> int (length r) \<le> maxLength"
    by (auto simp: r_def)
  show "\<exists>r. sanitizeInput (Some s) maxLength = Some r \<and>
           r = (if maxLength < int (length (sanitized s))
                then take (nat maxLength) (sanitized s) else sanitized s) \<and>
           0x3C \<notin> set r \<and> 0x3E \<notin> set r \<and>
           (r \<noteq> [] \<longrightarrow> \<not> is_whitespace (hd r)) \<and>
           (int (length (sanitized s)) \<le> maxLength \<and> r \<noteq> [] \<longrightarrow> \<not> is_whitespace (last r)) \<and>
           (0 \<le> maxLength \<longrightarrow> int (length r) \<le> maxLength)"
    using res angle hd last len r_def by blast
qed

text \<open>The example of the specification: every angle bracket of the script tag goes.\<close>

theorem sanitizeInput_result_witness:
  "jstr ''<script>alert(1)</script>'' \<noteq> [] \<and>
   sanitizeInput (Some (jstr ''<script>alert(1)</script>'')) 1000
     = Some (jstr ''scriptalert(1)/script'') \<and>
   0x3C \<notin> set (jstr ''scriptalert(1)/script'') \<and>
   0x3E \<notin> set (jstr ''scriptalert(1)/script'') \<and>
   \<not> is_whitespace (hd (jstr ''scriptalert(1)/script'')) \<and>
   \<not> is_whitespace (last (jstr ''scriptalert(1)/script'')) \<and>
   int (length (jstr ''scriptalert(1)/script'')) \<le> 1000"
proof -
  have n: "jstr ''<script>alert(1)</script>'' \<noteq> []" by (simp add: jstr_def)
  have l: "length (jstr ''scriptalert(1)/script'') = 21" by (simp add: jstr_def)
  show ?thesis
    using sanitizeInput_result[of 1000 "jstr ''<script>alert(1)</script>''"] n
    by (simp add: sanitized_script l) (simp add: jstr_def)
qed

text \<open>
  The cut comes after the trim, so a result that was cut can end with whitespace.
\<close>

theorem sanitizeInput_trailing_counterexample:
  "sanitizeInput (Some (jstr ''ab cd'')) 3 = Some (jstr ''ab '') \<and>
   is_whitespace (last (jstr ''ab ''))"
  by (simp add: sanitizeInput_def sanitized_ab_cd) (simp add: jstr_def is_whitespace_def)

text \<open>With a negative \<open>maxLength\<close> the result is the empty string, which is longer.\<close>

lemma sanitizeInput_negative_maxLength:
  "sanitizeInput (Some (jstr ''ab cd'')) (- 1) = Some []"
  by (simp add: sanitizeInput_def sanitized_ab_cd) (simp add: jstr_def)

subsection \<open>Abuse detection\<close>

text \<open>
  The flood expression finds exactly the runs of eleven equal code units that are not line
  terminators.
\<close>

lemma takeWhile_eq_replicate: "takeWhile (\<lambda>d. d = c) cs = replicate (length (takeWhile (\<lambda>d. d = c) cs)) c"
  by (induction cs) auto

lemma repeated_at_iff:
  "repeated_at s \<longleftrightarrow> (\<exists>c ys. \<not> is_line_terminator c \<and> s = replicate 11 c @ ys)"
proof
  assume "repeated_at s"
  then obtain c cs where s: "s = c # cs" and lt: "\<not> is_line_terminator c"
    and n: "10 \<le> length (takeWhile (\<lambda>d. d = c) cs)"
    by (auto simp: repeated_at_def split: list.splits)
  let ?n = "length (takeWhile (\<lambda>d. d = c) cs)"
  have "cs = replicate ?n c @ dropWhile (\<lambda>d. d = c) cs"
    using takeWhile_eq_replicate[of c cs] takeWhile_dropWhile_id[of "\<lambda>d. d = c" cs] by simp
  also have "replicate ?n c = replicate 10 c @ replicate (?n - 10) c"
    using n by (simp add: replicate_add[symmetric])
  finally have "s = replicate 11 c @ (replicate (?n - 10) c @ dropWhile (\<lambda>d. d = c) cs)"
    using s by (simp add: numeral_eq_Suc)
  with lt show "\<exists>c ys. \<not> is_line_terminator c \<and> s = replicate 11 c @ ys" by blast
next
  assume "\<exists>c ys. \<not> is_line_terminator c \<and> s = replicate 11 c @ ys"
  then obtain c ys where lt: "\<not> is_line_terminator c" and s: "s = replicate 11 c @ ys" by blast
  have s': "s = c # (replicate 10 c @ ys)" using s by (simp add: numeral_eq_Suc)
  have "takeWhile (\<lambda>d. d = c) (replicate 10 c @ ys) = replicate 10 c @ takeWhile (\<lambda>d. d = c) ys"
    by (rule takeWhile_append2) simp
  then have "10 \<le> length (takeWhile (\<lambda>d. d = c) (replicate 10 c @ ys))" by simp
  with lt s' show "repeated_at s" by (simp add: repeated_at_def)
qed

lemma repeatedChars_test_iff:
  "repeatedChars_test t \<longleftrightarrow>
     (\<exists>c xs ys. \<not> is_line_terminator c \<and> t = xs @ replicate 11 c @ ys)"
proof (induction t)
  case Nil
  then show ?case by (simp add: numeral_eq_Suc)
next
  case (Cons a t)
  show ?case
  proof
    assume "repeatedChars_test (a # t)"
    then consider "repeated_at (a # t)" | "repeatedChars_test t" by auto
    then show "\<exists>c xs ys. \<not> is_line_terminator c \<and> a # t = xs @ replicate 11 c @ ys"
    proof cases
      case 1
      then obtain c ys where "\<not> is_line_terminator c" "a # t = replicate 11 c @ ys"
        unfolding repeated_at_iff by blast
      then have "\<not> is_line_terminator c \<and> a # t = [] @ replicate 11 c @ ys" by simp
      then show ?thesis by blast
    next
      case 2
      then obtain c xs ys where "\<not> is_line_terminator c" "t = xs @ replicate 11 c @ ys"
        unfolding Cons.IH by blast
      then have "\<not> is_line_terminator c \<and> a # t = (a # xs) @ replicate 11 c @ ys" by simp
      then show ?thesis by blast
    qed
  next
    assume "\<exists>c xs ys. \<not> is_line_terminator c \<and> a # t = xs @ replicate 11 c @ ys"
    then obtain c xs ys where lt: "\<not> is_line_terminator c" and e: "a # t = xs @ replicate 11 c @ ys"
      by blast
    show "repeatedChars_test (a # t)"
    proof (cases xs)
      case Nil
      with e lt have "repeated_at (a # t)" unfolding repeated_at_iff by auto
      then show ?thesis by simp
    next
      case (Cons x xs')
      with e have "t = xs' @ replicate 11 c @ ys" by simp
      with lt have "repeatedChars_test t" unfolding Cons.IH by blast
      then show ?thesis by simp
    qed
  qed
qed

lemma replicate_11: "replicate 11 x = [x, x, x, x, x, x, x, x, x, x, x]"
  by (simp add: numeral_eq_Suc)

lemma newlines_no_flood: "repeatedChars_test (replicate 11 0x0A) = False"
  by (simp add: replicate_11 repeated_at_def is_line_terminator_def)

lemma newlines_not_suspicious: "suspicious (replicate 11 0x0A) = False"
  by (simp add: replicate_11 suspicious_def suspiciousPatterns_def is_line_terminator_def ci_eq_def ascii_upper_def jstr_def)

lemma newlines_caps: "excessive_caps (replicate 11 0x0A) = False"
  by (simp add: replicate_11 excessive_caps_def caps_count_def)

lemma newlines_emoji: "excessive_emoji (replicate 11 0x0A) = False"
  by (simp add: replicate_11 excessive_emoji_def is_emoji_def is_lead_surrogate_def is_trail_surrogate_def)

text \<open>The example of the specification: fifteen capital letters A are a flood.\<close>

lemma detectAbuse_flood_example:
  "isFlood (detectAbuse (Some (replicate 15 0x41))) \<and>
   30 \<le> score (detectAbuse (Some (replicate 15 0x41)))"
proof -
  have "replicate 15 (0x41 :: code_unit) = [] @ replicate 11 0x41 @ replicate 4 0x41"
    by (simp add: replicate_add[symmetric])
  moreover have "\<not> is_line_terminator 0x41"
    by (simp add: is_line_terminator_def)
  ultimately have "repeatedChars_test (replicate 15 0x41)"
    unfolding repeatedChars_test_iff by blast
  then show ?thesis
    by (simp add: detectAbuse_def Let_def)
qed

text \<open>
  C7. A message of eleven line feeds is a run of eleven identical characters, but the
  atom \<^verbatim>\<open>.\<close> of the flood expression does not match a line terminator: the message is
  not reported as a flood and scores 0.
\<close>

theorem detectAbuse_newline_run:
  "detectAbuse (Some (replicate 11 0x0A)) =
     \<lparr>isSpam = False, isFlood = False, containsSuspiciousContent = False, score = 0\<rparr>"
  by (simp add: detectAbuse_def Let_def newlines_no_flood newlines_not_suspicious newlines_caps
      newlines_emoji)

lemma subset_sum:
  "\<exists>S. S \<subseteq> {30, 20, 40, 15 :: int} \<and>
       (if a then 30 else 0) + (if b then 20 else 0) + (if c then 40 else 0) + (if d then 15 else 0)
         = \<Sum>S"
proof -
  let ?S = "(if a then {30} else {}) \<union> (if b then {20} else {}) \<union>
            (if c then {40} else {}) \<union> (if d then {15 :: int} else {})"
  have "?S \<subseteq> {30, 20, 40, 15}" by auto
  moreover have "(if a then 30 else 0) + (if b then 20 else 0) + (if c then 40 else 0) +
                 (if d then 15 else 0) = \<Sum>?S"
    by (cases a; cases b; cases c; cases d) simp_all
  ultimately show ?thesis by blast
qed

lemma detectAbuse_Some:
  "t \<noteq> [] \<Longrightarrow> detectAbuse (Some t) =
     \<lparr>isSpam = (50 \<le> (if repeatedChars_test t then 30 else 0) + (if excessive_caps t then 20 else 0) +
                      (if suspicious t then 40 else 0) + (if excessive_emoji t then 15 else (0::int))),
      isFlood = repeatedChars_test t,
      containsSuspiciousContent = suspicious t,
      score = (if repeatedChars_test t then 30 else 0) + (if excessive_caps t then 20 else 0) +
              (if suspicious t then 40 else 0) + (if excessive_emoji t then 15 else 0)\<rparr>"
  by (simp add: detectAbuse_def Let_def)

lemma detectAbuse_empty:
  "text = None \<or> text = Some [] \<Longrightarrow>
   detectAbuse text = \<lparr>isSpam = False, isFlood = False, containsSuspiciousContent = False, score = 0\<rparr>"
  by (auto simp: detectAbuse_def)

lemma not_suspicious_Nil: "\<not> suspicious []"
  by (simp add: suspicious_def suspiciousPatterns_def jstr_def)

lemma free_crypto_flood: "repeatedChars_test (jstr ''FREE CRYPTO!'') = False"
  by (simp add: repeated_at_def is_line_terminator_def jstr_def)

lemma free_crypto_caps: "excessive_caps (jstr ''FREE CRYPTO!'') = True"
  by (simp add: excessive_caps_def caps_count_def jstr_def)

lemma free_crypto_suspicious: "suspicious (jstr ''FREE CRYPTO!'') = True"
  by (simp add: suspicious_def suspiciousPatterns_def is_line_terminator_def ci_eq_def
      ascii_upper_def jstr_def)

lemma free_crypto_emoji: "excessive_emoji (jstr ''FREE CRYPTO!'') = False"
  by (simp add: excessive_emoji_def is_emoji_def is_lead_surrogate_def is_trail_surrogate_def
      jstr_def)

lemma invite_flood: "repeatedChars_test (jstr ''discord.gg/x'') = False"
  by (simp add: repeated_at_def is_line_terminator_def jstr_def)

lemma invite_caps: "excessive_caps (jstr ''discord.gg/x'') = False"
  by (simp add: excessive_caps_def caps_count_def jstr_def)

lemma invite_suspicious: "suspicious (jstr ''discord.gg/x'') = True"
  by (simp add: suspicious_def suspiciousPatterns_def is_line_terminator_def ci_eq_def
      ascii_upper_def jstr_def)

lemma invite_emoji: "excessive_emoji (jstr ''discord.gg/x'') = False"
  by (simp add: excessive_emoji_def is_emoji_def is_lead_surrogate_def is_trail_surrogate_def
      jstr_def)

text \<open>
  C10. The score of a text is the sum of a subset of \<open>{30, 20, 40, 15}\<close>, hence at most
  105. A text classified as spam triggers at least two of the four heuristics. A text that
  triggers the suspicious-content heuristic and none of the other three scores 40 and is
  not classified as spam.
\<close>

theorem detectAbuse_score:
  "(\<exists>S. S \<subseteq> {30, 20, 40, 15} \<and> score (detectAbuse text) = \<Sum>S) \<and>
   score (detectAbuse text) \<le> 105 \<and>
   (isSpam (detectAbuse text) \<longrightarrow> (\<exists>t. text = Some t \<and> 2 \<le> heuristics_fired t)) \<and>
   (\<forall>t. text = Some t \<and> suspicious t \<and> \<not> repeatedChars_test t \<and> \<not> excessive_caps t \<and>
        \<not> excessive_emoji t \<longrightarrow>
        score (detectAbuse text) = 40 \<and> \<not> isSpam (detectAbuse text))"
proof (cases "text = None \<or> text = Some []")
  case True
  then have z: "detectAbuse text =
      \<lparr>isSpam = False, isFlood = False, containsSuspiciousContent = False, score = 0\<rparr>"
    by (rule detectAbuse_empty)
  have "\<exists>S. S \<subseteq> {30, 20, 40, 15 :: int} \<and> (0::int) = \<Sum>S"
    by (rule exI[of _ "{}"]) simp
  then show ?thesis using True not_suspicious_Nil by (auto simp: z)
next
  case False
  then obtain t where t: "text = Some t" "t \<noteq> []" by (cases "text") auto
  note d = detectAbuse_Some[OF t(2)]
  have 1: "\<exists>S. S \<subseteq> {30, 20, 40, 15} \<and> score (detectAbuse text) = \<Sum>S"
    unfolding t(1) d using subset_sum by simp
  have 2: "score (detectAbuse text) \<le> 105" by (simp add: t(1) d)
  have 3: "isSpam (detectAbuse text) \<longrightarrow> (\<exists>t. text = Some t \<and> 2 \<le> heuristics_fired t)"
    by (auto simp: t(1) d heuristics_fired_def split: if_splits)
  have 4: "\<forall>t. text = Some t \<and> suspicious t \<and> \<not> repeatedChars_test t \<and> \<not> excessive_caps t \<and>
        \<not> excessive_emoji t \<longrightarrow>
        score (detectAbuse text) = 40 \<and> \<not> isSpam (detectAbuse text)"
    by (auto simp: t(1) d)
  from 1 2 3 4 show ?thesis by blast
qed

text \<open>
  Two instances: a shouted scam phrase triggers two heuristics and is spam; an invite link
  alone scores 40 and is not.
\<close>

theorem detectAbuse_score_witness:
  "isSpam (detectAbuse (Some (jstr ''FREE CRYPTO!''))) \<and>
   heuristics_fired (jstr ''FREE CRYPTO!'') = 2 \<and>
   suspicious (jstr ''discord.gg/x'') \<and> \<not> repeatedChars_test (jstr ''discord.gg/x'') \<and>
   \<not> excessive_caps (jstr ''discord.gg/x'') \<and> \<not> excessive_emoji (jstr ''discord.gg/x'') \<and>
   score (detectAbuse (Some (jstr ''discord.gg/x''))) = 40 \<and>
   \<not> isSpam (detectAbuse (Some (jstr ''discord.gg/x'')))"
proof -
  have n: "jstr ''FREE CRYPTO!'' \<noteq> []" by (simp add: jstr_def)
  have spam: "isSpam (detectAbuse (Some (jstr ''FREE CRYPTO!'')))"
    by (simp add: detectAbuse_Some[OF n] free_crypto_flood free_crypto_caps
        free_crypto_suspicious free_crypto_emoji)
  have fired: "heuristics_fired (jstr ''FREE CRYPTO!'') = 2"
    using detectAbuse_score[of "Some (jstr ''FREE CRYPTO!'')"] spam
    by (simp add: heuristics_fired_def free_crypto_flood free_crypto_caps
        free_crypto_suspicious free_crypto_emoji)
  have only: "suspicious (jstr ''discord.gg/x'') \<and> \<not> repeatedChars_test (jstr ''discord.gg/x'') \<and>
      \<not> excessive_caps (jstr ''discord.gg/x'') \<and> \<not> excessive_emoji (jstr ''discord.gg/x'')"
    by (simp add: invite_flood invite_caps invite_suspicious invite_emoji)
  have "score (detectAbuse (Some (jstr ''discord.gg/x''))) = 40 \<and>
        \<not> isSpam (detectAbuse (Some (jstr ''discord.gg/x'')))"
    using detectAbuse_score[of "Some (jstr ''discord.gg/x'')"] only by blast
  with spam fired only show ?thesis by blast
qed

subsection \<open>Validation comes first\<close>

lemma validateDatabaseParams_invalid:
  "\<not> valid_platform platform \<or> \<not> valid_limit limit \<Longrightarrow>
   validateDatabaseParams platform limit = Inl InvalidPlatform \<or>
   validateDatabaseParams platform limit = Inl InvalidLimit"
  by (auto simp: validateDatabaseParams_def valid_platform_def valid_limit_def platforms_def
      split: option.splits)

lemma valid_limit_10: "valid_limit (Some 10)"
  by (simp add: valid_limit_def)

lemma xyz_invalid: "\<not> valid_platform (jstr ''xyz'')"
  by (simp add: valid_platform_def toLowerCase_def toLowerCase_unit_def jstr_def)

text \<open>
  C8. The four leaderboard functions, called with a platform that is not \<^verbatim>\<open>telegram\<close>
  or \<^verbatim>\<open>discord\<close> in any letter case or with a limit that is not an integer from 1 to
  1000, throw and leave the database handle as it was: no statement has been prepared, no
  table has changed. So do \<^verbatim>\<open>getUserStats\<close> and \<^verbatim>\<open>getPlatformStats\<close>, which take no
  limit, when the platform is invalid.
\<close>

theorem invalid_params_rejected:
  "(\<not> valid_platform platform \<or> \<not> valid_limit limit \<longrightarrow>
      (\<exists>e. getDailyLeaderboard db clk platform date limit = (Inl e, db)) \<and>
      (\<exists>e. getWeeklyLeaderboard db clk platform limit = (Inl e, db)) \<and>
      (\<exists>e. getMonthlyLeaderboard db clk platform limit = (Inl e, db)) \<and>
      (\<exists>e. getAllTimeLeaderboard db platform limit = (Inl e, db))) \<and>
   (\<not> valid_platform platform \<longrightarrow>
      (\<exists>e. getUserStats db clk platform userId = (Inl e, db)) \<and>
      (\<exists>e. getPlatformStats db clk platform = (Inl e, db)))"
proof (intro conjI impI)
  assume bad: "\<not> valid_platform platform \<or> \<not> valid_limit limit"
  from validateDatabaseParams_invalid[OF bad]
  obtain e where e: "validateDatabaseParams platform limit = Inl e" by blast
  show "\<exists>e. getDailyLeaderboard db clk platform date limit = (Inl e, db)"
    by (simp add: getDailyLeaderboard_def e)
  show "\<exists>e. getWeeklyLeaderboard db clk platform limit = (Inl e, db)"
    by (simp add: getWeeklyLeaderboard_def e)
  show "\<exists>e. getMonthlyLeaderboard db clk platform limit = (Inl e, db)"
    by (simp add: getMonthlyLeaderboard_def e)
  show "\<exists>e. getAllTimeLeaderboard db platform limit = (Inl e, db)"
    by (simp add: getAllTimeLeaderboard_def e)
next
  assume bad: "\<not> valid_platform platform"
  then have p: "platform = [] \<or> toLowerCase platform \<notin> set platforms"
    by (auto simp: valid_platform_def platforms_def)
  then show "\<exists>e. getUserStats db clk platform userId = (Inl e, db)"
    by (auto simp: getUserStats_def)
  from bad validateDatabaseParams_invalid[of platform "Some 10"]
  obtain e where e: "validateDatabaseParams platform (Some 10) = Inl e" by blast
  show "\<exists>e. getPlatformStats db clk platform = (Inl e, db)"
    by (simp add: getPlatformStats_def e)
qed

text \<open>An instance: the platform \<^verbatim>\<open>xyz\<close> and the limit 0 on the sample database.\<close>

theorem invalid_params_rejected_witness:
  "\<not> valid_platform (jstr ''xyz'') \<and> \<not> valid_limit (Some 0) \<and>
   getDailyLeaderboard sample_db sample_clock (jstr ''telegram'') None (Some 0)
     = (Inl InvalidLimit, sample_db) \<and>
   getAllTimeLeaderboard sample_db (jstr ''xyz'') (Some 10) = (Inl InvalidPlatform, sample_db) \<and>
   getUserStats sample_db sample_clock (jstr ''xyz'') (jstr ''1'') = (Inl InvalidPlatform, sample_db) \<and>
   getPlatformStats sample_db sample_clock (jstr ''xyz'') = (Inl InvalidPlatform, sample_db)"
proof -
  have l: "\<not> valid_limit (Some 0)" by (simp add: valid_limit_def)
  have v1: "validateDatabaseParams (jstr ''telegram'') (Some 0) = Inl InvalidLimit"
    by (simp add: validateDatabaseParams_def platforms_def toLowerCase_def toLowerCase_unit_def
        jstr_def)
  have v2: "validateDatabaseParams (jstr ''xyz'') (Some 10) = Inl InvalidPlatform"
    by (simp add: validateDatabaseParams_def platforms_def toLowerCase_def toLowerCase_unit_def
        jstr_def)
  have v3: "toLowerCase (jstr ''xyz'') \<notin> set platforms"
    by (simp add: platforms_def toLowerCase_def toLowerCase_unit_def jstr_def)
  show ?thesis
    using invalid_params_rejected[of "jstr ''telegram''" "Some 0" sample_db sample_clock None "jstr ''1''"]
      invalid_params_rejected[of "jstr ''xyz''" "Some 10" sample_db sample_clock None "jstr ''1''"]
      xyz_invalid l
    by (simp add: getDailyLeaderboard_def getAllTimeLeaderboard_def getUserStats_def
        getPlatformStats_def v1 v2 v3)
qed

subsection \<open>Leaderboards\<close>


















lemma length_order_by_desc: "length (order_by_desc rows) = length rows"
  by (simp add: order_by_desc_def)





























subsection \<open>The leaderboard route\<close>

lemma parseInt_0: "parseInt (jstr ''0'') = Some 0"
  by (simp add: parseInt_def Let_def is_radix_digit_def digit_value_def digits_value_def
      is_whitespace_def jstr_def)

lemma parseInt_minus_5: "parseInt (jstr ''-5'') = Some (- 5)"
  by (simp add: parseInt_def Let_def is_radix_digit_def digit_value_def digits_value_def
      is_whitespace_def jstr_def)

lemma parseInt_abc: "parseInt (jstr ''abc'') = None"
  by (simp add: parseInt_def Let_def is_radix_digit_def digit_value_def digits_value_def
      is_whitespace_def jstr_def)

lemma parseInt_10: "parseInt (jstr ''10'') = Some 10"
  by (simp add: parseInt_def Let_def is_radix_digit_def digit_value_def digits_value_def
      is_whitespace_def jstr_def)

lemma parseInt_500: "parseInt (jstr ''500'') = Some 500"
  by (simp add: parseInt_def Let_def is_radix_digit_def digit_value_def digits_value_def
      is_whitespace_def jstr_def)

lemma effective_limit_examples:
  "effective_limit None = Some 10 \<and> effective_limit (Some []) = Some 10 \<and>
   effective_limit (Some (jstr ''500'')) = Some 100 \<and>
   effective_limit (Some (jstr ''0'')) = Some 0 \<and>
   effective_limit (Some (jstr ''-5'')) = Some (- 5) \<and>
   effective_limit (Some (jstr ''abc'')) = None"
proof -
  have "jstr ''500'' \<noteq> [] \<and> jstr ''0'' \<noteq> [] \<and> jstr ''-5'' \<noteq> [] \<and> jstr ''abc'' \<noteq> []"
    by (simp add: jstr_def)
  then show ?thesis
    by (simp add: effective_limit_def or_default_def Math_min_def parseInt_0 parseInt_minus_5
        parseInt_abc parseInt_10 parseInt_500)
qed

lemma effective_limit_capped: "effective_limit q = Some n \<Longrightarrow> n \<le> 100"
  by (auto simp: effective_limit_def Math_min_def split: option.splits)

lemma invalid_limit_500:
  assumes "platform = jstr ''telegram'' \<or> platform = jstr ''discord''"
    and "or_default periodParam (jstr ''all'') \<in> set [jstr ''daily'', jstr ''weekly'', jstr ''monthly'', jstr ''all'']"
    and "\<not> valid_limit (effective_limit limitQuery)"
  shows "leaderboard_route db clk platform periodParam limitQuery = (ErrorResponse 500 ''INTERNAL_ERROR'', db)"
proof -
  have "validateDatabaseParams platform (effective_limit limitQuery) = Inl InvalidLimit"
    using assms(1,3)
    by (auto simp: validateDatabaseParams_def valid_limit_def platforms_def toLowerCase_def
        toLowerCase_unit_def jstr_def split: option.splits)
  then show ?thesis using assms(1,2)
    by (simp add: leaderboard_route_def Let_def getDailyLeaderboard_def getWeeklyLeaderboard_def
        getMonthlyLeaderboard_def getAllTimeLeaderboard_def)
qed

text \<open>
  C4. \<^verbatim>\<open>GET /api/leaderboard/telegram\<close> with the query \<^verbatim>\<open>limit=0\<close>, \<^verbatim>\<open>limit=-5\<close> or
  \<^verbatim>\<open>limit=abc\<close>: the handler passes the parsed limit on, the leaderboard function
  rejects it, and the handler answers the exception with status 500 and the code
  \<^verbatim>\<open>INTERNAL_ERROR\<close>, not with status 400.
\<close>

theorem leaderboard_route_invalid_limit:
  "leaderboard_route db clk (jstr ''telegram'') None (Some (jstr ''0''))
     = (ErrorResponse 500 ''INTERNAL_ERROR'', db) \<and>
   leaderboard_route db clk (jstr ''telegram'') None (Some (jstr ''-5''))
     = (ErrorResponse 500 ''INTERNAL_ERROR'', db) \<and>
   leaderboard_route db clk (jstr ''telegram'') None (Some (jstr ''abc''))
     = (ErrorResponse 500 ''INTERNAL_ERROR'', db)"
proof -
  have p: "or_default None (jstr ''all'') \<in> set [jstr ''daily'', jstr ''weekly'', jstr ''monthly'', jstr ''all'']"
    by (simp add: or_default_def)
  have l: "\<not> valid_limit (effective_limit (Some (jstr ''0'')))"
    "\<not> valid_limit (effective_limit (Some (jstr ''-5'')))"
    "\<not> valid_limit (effective_limit (Some (jstr ''abc'')))"
    by (simp_all add: effective_limit_examples valid_limit_def)
  show ?thesis
    by (simp add: invalid_limit_500[OF _ p l(1)] invalid_limit_500[OF _ p l(2)]
        invalid_limit_500[OF _ p l(3)])
qed

end
